theory Spec2Isabelle
  imports Main "HOL-Library.Multiset" "HOL-Library.Sublist"
begin

section \<open>Data model (types.ts)\<close>

text \<open>
  \<^verbatim>\<open>Proficiency = 'new' | 'known' | 'unknown'\<close>; a \<^verbatim>\<open>Card\<close> has the required strings
  \<^verbatim>\<open>id\<close>, \<^verbatim>\<open>category\<close>, \<^verbatim>\<open>question\<close>, \<^verbatim>\<open>answer\<close> and the optional
  \<^verbatim>\<open>details\<close>, \<^verbatim>\<open>tags\<close>, \<^verbatim>\<open>proficiency\<close> (\<open>None\<close> is \<^verbatim>\<open>undefined\<close>).
  The field \<^verbatim>\<open>id\<close> is called \<open>card_id\<close> here.
\<close>

datatype Proficiency = New | Known | Unknown

record Card =
  card_id :: string
  category :: string
  question :: string
  answer :: string
  details :: "string list option"
  tags :: "string list option"
  proficiency :: "Proficiency option"

datatype ViewMode = Study | ListView | EditorView

text \<open>
  The state \<^verbatim>\<open>filterMode\<close> of the App ranges over
  \<^verbatim>\<open>'all' | 'new' | 'unknown' | 'known'\<close>: either \<^verbatim>\<open>'all'\<close> or one of the
  proficiency strings, so that \<^verbatim>\<open>c.proficiency === filterMode\<close> is an equality of
  proficiencies.
\<close>

datatype FilterMode = FAll | FProf Proficiency

section \<open>Card store (utils/storage.ts)\<close>

text \<open>
  \<^verbatim>\<open>localStorage\<close> under the one key \<^verbatim>\<open>STORAGE_KEY\<close>. The stored string is
  \<^verbatim>\<open>JSON.stringify(cards)\<close>; it is represented by the card list it parses back to.
  \<open>stored = None\<close> stands for a missing (or empty, or unparsable) entry.
  \<^verbatim>\<open>setItem\<close> may throw (quota): \<open>accepts\<close> says which snapshots the medium takes.
\<close>

record LocalStorage =
  stored :: "Card list option"
  accepts :: "Card list \<Rightarrow> bool"

text \<open>
  \<^verbatim>\<open>saveCards\<close>: \<^verbatim>\<open>try { localStorage.setItem(KEY, JSON.stringify(cards)) } catch (e)
  { console.error(...) }\<close>. A failed write is swallowed and leaves the entry as it was.
\<close>

definition saveCards :: "Card list \<Rightarrow> LocalStorage \<Rightarrow> LocalStorage" where
  "saveCards cs st = (if accepts st cs then st\<lparr>stored := Some cs\<rparr> else st)"

text \<open>
  \<^verbatim>\<open>loadCards\<close> and \<^verbatim>\<open>resetData\<close> exist in two variants in storage.ts. The second
  one uses the constant \<^verbatim>\<open>INITIAL_DATA\<close> of \<^verbatim>\<open>../constants\<close>, which is not among the
  sources: it is the parameter \<open>INITIAL_DATA\<close> below. The first variant (suffix \<open>0\<close>)
  returns the empty array instead.
\<close>

definition loadCards :: "Card list \<Rightarrow> LocalStorage \<Rightarrow> Card list" where
  "loadCards INITIAL_DATA st = (case stored st of Some data \<Rightarrow> data | None \<Rightarrow> INITIAL_DATA)"

definition resetData :: "Card list \<Rightarrow> LocalStorage \<Rightarrow> LocalStorage \<times> Card list" where
  "resetData INITIAL_DATA st = (st\<lparr>stored := None\<rparr>, INITIAL_DATA)"

definition loadCards0 :: "LocalStorage \<Rightarrow> Card list" where
  "loadCards0 st = (case stored st of Some data \<Rightarrow> data | None \<Rightarrow> [])"

definition resetData0 :: "LocalStorage \<Rightarrow> LocalStorage \<times> Card list" where
  "resetData0 st = (st\<lparr>stored := None\<rparr>, [])"

section \<open>View filter (displayCards)\<close>

text \<open>
  The two filter stages of \<^verbatim>\<open>displayCards\<close>, as a function of the collection, the
  proficiency filter and the selected tag (\<^verbatim>\<open>''\<close> is "no tag filter").
  \<^verbatim>\<open>c.tags?.includes(selectedTag)\<close> is \<^verbatim>\<open>undefined\<close>, hence falsy, for a card
  without tags.
\<close>

definition includesTag :: "string \<Rightarrow> Card \<Rightarrow> bool" where
  "includesTag t c = (case tags c of None \<Rightarrow> False | Some ts \<Rightarrow> t \<in> set ts)"

fun proficiencyStage :: "FilterMode \<Rightarrow> Card list \<Rightarrow> Card list" where
  "proficiencyStage (FProf New) cs =
     filter (\<lambda>c. proficiency c = None \<or> proficiency c = Some New) cs"
| "proficiencyStage (FProf p) cs = filter (\<lambda>c. proficiency c = Some p) cs"
| "proficiencyStage FAll cs = cs"

definition tagStage :: "string \<Rightarrow> Card list \<Rightarrow> Card list" where
  "tagStage t cs = (if t = [] then cs else filter (includesTag t) cs)"

definition visible :: "Card list \<Rightarrow> FilterMode \<Rightarrow> string \<Rightarrow> Card list" where
  "visible cs fm t = tagStage t (proficiencyStage fm cs)"

text \<open>
  The same filter in the words of the specification: the proficiency stage keeps
  absent-or-new cards for \<^verbatim>\<open>new\<close>, exact matches for \<^verbatim>\<open>known\<close> and
  \<^verbatim>\<open>unknown\<close> and everything for \<^verbatim>\<open>all\<close>; the tag stage, when a tag is set,
  keeps the cards whose tags contain it.
\<close>

definition passesProficiency :: "FilterMode \<Rightarrow> Card \<Rightarrow> bool" where
  "passesProficiency fm c =
     (case fm of
        FAll \<Rightarrow> True
      | FProf New \<Rightarrow> proficiency c \<in> {None, Some New}
      | FProf Known \<Rightarrow> proficiency c = Some Known
      | FProf Unknown \<Rightarrow> proficiency c = Some Unknown)"

definition passesTag :: "string \<Rightarrow> Card \<Rightarrow> bool" where
  "passesTag t c = (if t = [] then True else (\<exists>ts. tags c = Some ts \<and> t \<in> set ts))"

definition passesFilters :: "FilterMode \<Rightarrow> string \<Rightarrow> Card \<Rightarrow> bool" where
  "passesFilters fm t c = (passesProficiency fm c \<and> passesTag t c)"

section \<open>Session state (App.tsx)\<close>

text \<open>
  The React state of \<^verbatim>\<open>App\<close>, together with the store it writes to and the
  callbacks that \<^verbatim>\<open>handleNext\<close> and \<^verbatim>\<open>handlePrev\<close> have handed to
  \<^verbatim>\<open>setTimeout\<close> and that have not run yet. A pending callback is the updater
  \<^verbatim>\<open>prev => ...\<close> together with the \<^verbatim>\<open>displayCards.length\<close> its closure captured.
  All delays are 200 ms, so the callbacks run in the order they were scheduled.
\<close>

datatype Dir = Fwd | Bwd

record AppState =
  cards :: "Card list"
  currentIndex :: int
  isFlipped :: bool
  mode :: ViewMode
  filterMode :: FilterMode
  selectedTag :: string
  editingCard :: "Card option"
  timers :: "(Dir \<times> int) list"
  storage :: LocalStorage

definition displayCards :: "AppState \<Rightarrow> Card list" where
  "displayCards s = visible (cards s) (filterMode s) (selectedTag s)"

text \<open>\<^verbatim>\<open>Math.min(currentIndex, Math.max(0, displayCards.length - 1))\<close>\<close>

definition effectiveIndex :: "AppState \<Rightarrow> int" where
  "effectiveIndex s = min (currentIndex s) (max 0 (int (length (displayCards s)) - 1))"

text \<open>
  \<^verbatim>\<open>displayCards[effectiveIndex]\<close>: reading an array outside its bounds gives
  \<^verbatim>\<open>undefined\<close>, here \<open>None\<close>.
\<close>

definition currentCard :: "AppState \<Rightarrow> Card option" where
  "currentCard s =
     (let e = effectiveIndex s; dc = displayCards s
      in if 0 \<le> e \<and> e < int (length dc) then Some (dc ! nat e) else None)"

text \<open>
  The remainder operator \<^verbatim>\<open>%\<close> of JavaScript on integers: the result has the sign
  of the dividend. (A zero divisor gives \<^verbatim>\<open>NaN\<close> in JavaScript; the handlers return
  before scheduling a step when the length is 0.)
\<close>

definition js_rem :: "int \<Rightarrow> int \<Rightarrow> int" where
  "js_rem a b = sgn a * (\<bar>a\<bar> mod \<bar>b\<bar>)"

text \<open>
  The updaters passed to \<^verbatim>\<open>setCurrentIndex\<close> inside the timeouts; \<open>n\<close> is the
  captured \<^verbatim>\<open>displayCards.length\<close>:
  \<^verbatim>\<open>const base = prev >= n ? 0 : prev; return (base + 1) % n\<close>, and
  \<^verbatim>\<open>(base - 1 + n) % n\<close> for the step back.
\<close>

fun stepIndex :: "Dir \<Rightarrow> int \<Rightarrow> int \<Rightarrow> int" where
  "stepIndex Fwd n prev = (let base = (if prev \<ge> n then 0 else prev) in js_rem (base + 1) n)"
| "stepIndex Bwd n prev = (let base = (if prev \<ge> n then 0 else prev) in js_rem (base - 1 + n) n)"

text \<open>
  The body shared by \<^verbatim>\<open>handleNext\<close> and \<^verbatim>\<open>handlePrev\<close>, for a closure that
  captured the length \<open>n\<close>: return when \<open>n\<close> is 0, else unflip at once and schedule
  the index update.
\<close>

definition scheduleStep :: "Dir \<Rightarrow> int \<Rightarrow> AppState \<Rightarrow> AppState" where
  "scheduleStep d n s =
     (if n = 0 then s else s\<lparr>isFlipped := False, timers := timers s @ [(d, n)]\<rparr>)"

definition handleNext :: "AppState \<Rightarrow> AppState" where
  "handleNext s = scheduleStep Fwd (int (length (displayCards s))) s"

definition handlePrev :: "AppState \<Rightarrow> AppState" where
  "handlePrev s = scheduleStep Bwd (int (length (displayCards s))) s"

text \<open>The oldest pending timeout fires: its updater is applied to the index of that moment.\<close>

definition tick :: "AppState \<Rightarrow> AppState" where
  "tick s =
     (case timers s of
        [] \<Rightarrow> s
      | (d, n) # ts \<Rightarrow> s\<lparr>currentIndex := stepIndex d n (currentIndex s), timers := ts\<rparr>)"

text \<open>All pending timeouts fire, oldest first, with no other event in between.\<close>

definition settle :: "AppState \<Rightarrow> AppState" where
  "settle s =
     s\<lparr>currentIndex := foldl (\<lambda>i (d, n). stepIndex d n i) (currentIndex s) (timers s),
       timers := []\<rparr>"

text \<open>
  \<^verbatim>\<open>handleMark(proficiency)\<close>. The call \<^verbatim>\<open>handleNext()\<close> in it is the callback of
  the current render: its closure holds the length of \<^verbatim>\<open>displayCards\<close> as it was before
  the mark.
\<close>

definition handleMark :: "Proficiency \<Rightarrow> AppState \<Rightarrow> AppState" where
  "handleMark p s =
     (case currentCard s of
        None \<Rightarrow> s
      | Some cur \<Rightarrow>
          let updatedCards =
                map (\<lambda>c. if card_id c = card_id cur then c\<lparr>proficiency := Some p\<rparr> else c)
                  (cards s);
              s1 = s\<lparr>cards := updatedCards, storage := saveCards updatedCards (storage s)\<rparr>;
              len = int (length (displayCards s));
              matchesProficiency = (filterMode s = FAll \<or> filterMode s = FProf p);
              matchesTag = (selectedTag s = [] \<or> includesTag (selectedTag s) cur);
              willStayVisible = (matchesProficiency \<and> matchesTag)
          in if willStayVisible then scheduleStep Fwd len s1
             else (if len > 0 \<and> effectiveIndex s \<ge> len - 1
                   then s1\<lparr>currentIndex := max 0 (len - 2)\<rparr>
                   else s1)\<lparr>isFlipped := False\<rparr>)"

text \<open>
  \<^verbatim>\<open>handleDeleteCard\<close>; \<open>confirmed\<close> is the answer to \<^verbatim>\<open>window.confirm\<close>.
\<close>

definition handleDeleteCard :: "bool \<Rightarrow> AppState \<Rightarrow> AppState" where
  "handleDeleteCard confirmed s =
     (case currentCard s of
        None \<Rightarrow> s
      | Some cur \<Rightarrow>
          if confirmed then
            let newCards = filter (\<lambda>c. card_id c \<noteq> card_id cur) (cards s);
                s1 = s\<lparr>cards := newCards, storage := saveCards newCards (storage s)\<rparr>;
                len = int (length (displayCards s))
            in (if effectiveIndex s \<ge> len - 1
                then s1\<lparr>currentIndex := max 0 (len - 2)\<rparr>
                else s1)\<lparr>isFlipped := False\<rparr>
          else s)"

definition handleEditCard :: "AppState \<Rightarrow> AppState" where
  "handleEditCard s =
     (case currentCard s of Some c \<Rightarrow> s\<lparr>editingCard := Some c\<rparr> | None \<Rightarrow> s)"

definition handleUpdateCard :: "Card \<Rightarrow> AppState \<Rightarrow> AppState" where
  "handleUpdateCard updatedCard s =
     (let newCards = map (\<lambda>c. if card_id c = card_id updatedCard then updatedCard else c)
                       (cards s)
      in s\<lparr>cards := newCards, storage := saveCards newCards (storage s),
            editingCard := None\<rparr>)"

text \<open>
  \<^verbatim>\<open>[...cards].sort(() => Math.random() - 0.5)\<close>. The comparator ignores its
  arguments; \<open>rnd k\<close> says whether its call number \<open>k\<close> (counted from 0) returned a
  negative number, the only thing the sort asks of a result.
  \<^verbatim>\<open>Array.prototype.sort\<close> belongs to the engine (V8, array-sort.tq), not to the
  repository. For an array of fewer than 64 elements the minimal run length is the
  length of the array, so the whole array becomes one run: \<^verbatim>\<open>CountAndMakeRun\<close>
  takes the longest run at the start, \<^verbatim>\<open>BinaryInsertionSort\<close> inserts the rest.

  \<^verbatim>\<open>CountAndMakeRun\<close>: \<^verbatim>\<open>order = Compare(a[1], a[0]); isDescending = order < 0;
  for (idx = 2; idx < high; ++idx) { order = Compare(a[idx], a[idx - 1]);
    if (isDescending) { if (order >= 0) break; } else { if (order < 0) break; }
    ++runLength; }
  if (isDescending) ReverseRange(a, 0, runLength); return runLength;\<close>
  \<open>countRun\<close> is the loop: the call made at \<open>idx\<close> is call number \<open>idx - 1\<close>, and the
  result is the run length.
\<close>

function countRun :: "(nat \<Rightarrow> bool) \<Rightarrow> bool \<Rightarrow> nat \<Rightarrow> nat \<Rightarrow> nat" where
  "countRun rnd isDescending high idx =
     (if idx < high \<and> rnd (idx - 1) = isDescending
      then countRun rnd isDescending high (Suc idx) else idx)"
  by pat_completeness auto
termination
  by (relation "measure (\<lambda>(rnd, isDescending, high, idx). high - idx)") auto

text \<open>
  \<^verbatim>\<open>BinaryInsertionSort\<close>, for each \<open>start\<close> from the run length on:
  \<^verbatim>\<open>left = 0; right = start; pivot = a[right];
  while (left < right) { mid = left + ((right - left) >> 1);
    order = Compare(pivot, a[mid]);
    if (order < 0) right = mid; else left = mid + 1; }
  for (p = start; p > left; --p) a[p] = a[p - 1];
  a[left] = pivot;\<close>
  \<open>binarySearch\<close> is the inner loop, from call number \<open>k\<close> on; it returns the number
  of the next call and the position found. \<open>binaryInsertionSort\<close> holds the part of
  the array already in place and the elements still to insert.
\<close>

function binarySearch :: "(nat \<Rightarrow> bool) \<Rightarrow> nat \<Rightarrow> nat \<Rightarrow> nat \<Rightarrow> nat \<times> nat" where
  "binarySearch rnd k left right =
     (if left < right
      then (let mid = left + (right - left) div 2
            in if rnd k then binarySearch rnd (Suc k) left mid
               else binarySearch rnd (Suc k) (mid + 1) right)
      else (k, left))"
  by pat_completeness auto
termination
  by (relation "measure (\<lambda>(rnd, k, left, right). right - left)") auto

declare countRun.simps [simp del] binarySearch.simps [simp del]

fun binaryInsertionSort :: "(nat \<Rightarrow> bool) \<Rightarrow> nat \<Rightarrow> 'a list \<Rightarrow> 'a list \<Rightarrow> 'a list" where
  "binaryInsertionSort rnd k placed [] = placed"
| "binaryInsertionSort rnd k placed (pivot # rest) =
     (case binarySearch rnd k 0 (length placed) of
        (k', left) \<Rightarrow>
          binaryInsertionSort rnd k' (take left placed @ pivot # drop left placed) rest)"

text \<open>
  The sort of an array of 2 to 63 elements. The run detection has made \<open>runLength\<close>
  calls when it stopped before the end of the array, and one less when the run is the
  whole array.
\<close>

definition sortOneRun :: "(nat \<Rightarrow> bool) \<Rightarrow> 'a list \<Rightarrow> 'a list" where
  "sortOneRun rnd a =
     (let isDescending = rnd 0;
          runLength = countRun rnd isDescending (length a) 2;
          calls = (if runLength < length a then runLength else runLength - 1);
          firstRun = (if isDescending then rev (take runLength a) else take runLength a)
      in binaryInsertionSort rnd calls firstRun (drop runLength a))"

text \<open>
  An array of 64 or more elements is cut into several runs, which the engine merges. The
  merging is not modelled step by step. Like every sort of the engine it moves the
  elements of the array among its positions; the rearrangement it ends with is the
  parameter \<open>merged\<close>, given as the exchanges of positions that produce it (a pair with
  a position outside the array exchanges nothing). An array of fewer than 2 elements is
  returned as it is.
\<close>

fun exchange :: "'a list \<Rightarrow> nat \<times> nat \<Rightarrow> 'a list" where
  "exchange a (i, j) = (if i < length a \<and> j < length a then a[i := a ! j, j := a ! i] else a)"

definition sortRandom :: "(nat \<times> nat) list \<Rightarrow> (nat \<Rightarrow> bool) \<Rightarrow> 'a list \<Rightarrow> 'a list" where
  "sortRandom merged rnd a =
     (if length a < 2 then a
      else if length a < 64 then sortOneRun rnd a
      else foldl exchange a merged)"

definition handleShuffle :: "(nat \<times> nat) list \<Rightarrow> (nat \<Rightarrow> bool) \<Rightarrow> AppState \<Rightarrow> AppState" where
  "handleShuffle merged rnd s =
     s\<lparr>isFlipped := False, cards := sortRandom merged rnd (cards s), currentIndex := 0\<rparr>"

definition handleSaveData :: "Card list \<Rightarrow> AppState \<Rightarrow> AppState" where
  "handleSaveData newCards s =
     s\<lparr>cards := newCards, storage := saveCards newCards (storage s), currentIndex := 0,
       isFlipped := False, mode := Study, filterMode := FAll\<rparr>"

definition handleAppendData :: "Card list \<Rightarrow> AppState \<Rightarrow> AppState" where
  "handleAppendData newCards s =
     (let merged = cards s @ newCards
      in s\<lparr>cards := merged, storage := saveCards merged (storage s)\<rparr>)"

text \<open>
  \<^verbatim>\<open>handleReset\<close>; \<open>confirmed\<close> is the answer to \<^verbatim>\<open>window.confirm\<close> and
  \<open>reset\<close> the imported \<^verbatim>\<open>resetData\<close> (either variant).
\<close>

definition handleReset ::
  "bool \<Rightarrow> (LocalStorage \<Rightarrow> LocalStorage \<times> Card list) \<Rightarrow> AppState \<Rightarrow> AppState" where
  "handleReset confirmed reset s =
     (if confirmed then
        (case reset (storage s) of
           (st, defaultData) \<Rightarrow>
             s\<lparr>storage := st, cards := defaultData, currentIndex := 0, isFlipped := False,
               filterMode := FAll, selectedTag := []\<rparr>)
      else s)"

text \<open>
  The filter controls call \<^verbatim>\<open>setFilterMode\<close> and \<^verbatim>\<open>setSelectedTag\<close>. The effect
  with dependencies \<^verbatim>\<open>[filterMode, selectedTag]\<close> runs when one of them has changed
  and then sets the index to 0 and unflips.
\<close>

definition setFilterMode :: "FilterMode \<Rightarrow> AppState \<Rightarrow> AppState" where
  "setFilterMode fm s =
     (if fm = filterMode s then s
      else s\<lparr>filterMode := fm, currentIndex := 0, isFlipped := False\<rparr>)"

definition setSelectedTag :: "string \<Rightarrow> AppState \<Rightarrow> AppState" where
  "setSelectedTag t s =
     (if t = selectedTag s then s
      else s\<lparr>selectedTag := t, currentIndex := 0, isFlipped := False\<rparr>)"

definition flip :: "AppState \<Rightarrow> AppState" where
  "flip s = s\<lparr>isFlipped := \<not> isFlipped s\<rparr>"

definition setMode :: "ViewMode \<Rightarrow> AppState \<Rightarrow> AppState" where
  "setMode m s = s\<lparr>mode := m\<rparr>"

text \<open>
  The state after mounting: the initial values of the hooks, with \<^verbatim>\<open>cards\<close> set by the
  mount effect to what the imported \<^verbatim>\<open>loadCards\<close> returns.
\<close>

definition mount :: "(LocalStorage \<Rightarrow> Card list) \<Rightarrow> LocalStorage \<Rightarrow> AppState" where
  "mount load st =
     \<lparr>cards = load st, currentIndex = 0, isFlipped = False, mode = Study, filterMode = FAll,
      selectedTag = [], editingCard = None, timers = [], storage = st\<rparr>"

text \<open>
  The events the App reacts to, and the state after a sequence of them. \<open>Tick\<close> is a
  pending timeout firing; it can come between any two other events.
\<close>

datatype Event =
    Next | Prev | Tick | Flip
  | SetFilterMode FilterMode | SetSelectedTag string | SetMode ViewMode
  | Mark Proficiency | Delete bool | Shuffle "(nat \<times> nat) list" "nat \<Rightarrow> bool"
  | EditCard | UpdateCard Card | SaveData "Card list" | AppendData "Card list"
  | Reset bool "LocalStorage \<Rightarrow> LocalStorage \<times> Card list"

fun react :: "Event \<Rightarrow> AppState \<Rightarrow> AppState" where
  "react Next s = handleNext s"
| "react Prev s = handlePrev s"
| "react Tick s = tick s"
| "react Flip s = flip s"
| "react (SetFilterMode fm) s = setFilterMode fm s"
| "react (SetSelectedTag t) s = setSelectedTag t s"
| "react (SetMode m) s = setMode m s"
| "react (Mark p) s = handleMark p s"
| "react (Delete confirmed) s = handleDeleteCard confirmed s"
| "react (Shuffle merged rnd) s = handleShuffle merged rnd s"
| "react EditCard s = handleEditCard s"
| "react (UpdateCard c) s = handleUpdateCard c s"
| "react (SaveData cs) s = handleSaveData cs s"
| "react (AppendData cs) s = handleAppendData cs s"
| "react (Reset confirmed reset) s = handleReset confirmed reset s"

fun run :: "Event list \<Rightarrow> AppState \<Rightarrow> AppState" where
  "run [] s = s"
| "run (e # es) s = run es (react e s)"

section \<open>Bulk import (components/Editor.tsx)\<close>

text \<open>
  \<^verbatim>\<open>parseAndValidate\<close> works on what \<^verbatim>\<open>JSON.parse\<close> returns, a value of type
  \<^verbatim>\<open>any\<close>: the values of JSON. An object is the list of its properties, each key
  once, as \<^verbatim>\<open>JSON.parse\<close> builds it. Of a number only its being zero or not is
  observed (as truthiness), so numbers are integers here.
\<close>

datatype json = JNull | JBool bool | JNum int | JStr string | JArr "json list"
  | JObj "(string \<times> json) list"

text \<open>
  What the Editor can catch: the \<^verbatim>\<open>SyntaxError\<close> of \<^verbatim>\<open>JSON.parse\<close>, the
  \<^verbatim>\<open>TypeError\<close> of reading a property of \<^verbatim>\<open>null\<close>, and the two
  \<^verbatim>\<open>new Error(message)\<close> of \<^verbatim>\<open>parseAndValidate\<close>. The Editor keeps
  \<^verbatim>\<open>e.message\<close>; the texts of the first two are chosen by the engine, so the state
  holds the thrown value itself.
\<close>

datatype Thrown = SyntaxError | TypeError | Error string

fun truthy :: "json \<Rightarrow> bool" where
  "truthy JNull = False"
| "truthy (JBool b) = b"
| "truthy (JNum n) = (n \<noteq> 0)"
| "truthy (JStr s) = (s \<noteq> [])"
| "truthy (JArr xs) = True"
| "truthy (JObj kvs) = True"

text \<open>
  \<^verbatim>\<open>item.f\<close> for an \<open>item\<close> other than \<^verbatim>\<open>null\<close>; \<open>None\<close> is
  \<^verbatim>\<open>undefined\<close>. Strings, numbers, booleans and arrays have none of the properties
  read here (\<^verbatim>\<open>question\<close>, \<^verbatim>\<open>answer\<close>, \<^verbatim>\<open>id\<close>, \<^verbatim>\<open>proficiency\<close>,
  \<^verbatim>\<open>tags\<close>).
\<close>

fun getProp :: "json \<Rightarrow> string \<Rightarrow> json option" where
  "getProp (JObj kvs) f = map_of kvs f"
| "getProp j f = None"

text \<open>The left operand of \<^verbatim>\<open>||\<close> and \<^verbatim>\<open>&&\<close>, kept when it is truthy.\<close>

definition truthyValue :: "json option \<Rightarrow> json option" where
  "truthyValue ov = (case ov of None \<Rightarrow> None | Some v \<Rightarrow> if truthy v then Some v else None)"

definition truthyProp :: "json \<Rightarrow> string \<Rightarrow> bool" where
  "truthyProp item f = (truthyValue (getProp item f) \<noteq> None)"

text \<open>
  \<^verbatim>\<open>parsed.every(item => item.question && item.answer)\<close>: it stops with
  \<^verbatim>\<open>false\<close> at the first item that fails the test, and reading
  \<^verbatim>\<open>item.question\<close> of a \<^verbatim>\<open>null\<close> item throws.
\<close>

fun every :: "json list \<Rightarrow> Thrown + bool" where
  "every [] = Inr True"
| "every (item # rest) =
     (case item of
        JNull \<Rightarrow> Inl TypeError
      | _ \<Rightarrow> if truthyProp item ''question'' \<and> truthyProp item ''answer''
             then every rest else Inr False)"

text \<open>
  The object literal \<^verbatim>\<open>{ ...item, id: ..., proficiency: ..., tags: ... }\<close>: the
  properties of \<open>item\<close>, then the three assignments. \<^verbatim>\<open>tags: undefined\<close> leaves a
  property that reads as \<^verbatim>\<open>undefined\<close> and that \<^verbatim>\<open>JSON.stringify\<close> omits: the
  property is removed. (Only objects get here: every other item fails the test above.)
\<close>

fun ownProps :: "json \<Rightarrow> (string \<times> json) list" where
  "ownProps (JObj kvs) = kvs"
| "ownProps j = []"

fun setProp :: "string \<Rightarrow> json \<Rightarrow> (string \<times> json) list \<Rightarrow> (string \<times> json) list" where
  "setProp k v [] = [(k, v)]"
| "setProp k v ((k', v') # kvs) =
     (if k' = k then (k, v) # kvs else (k', v') # setProp k v kvs)"

definition delProp :: "string \<Rightarrow> (string \<times> json) list \<Rightarrow> (string \<times> json) list" where
  "delProp k kvs = filter (\<lambda>(k', v'). k' \<noteq> k) kvs"

definition normalizeItem :: "json \<Rightarrow> json \<Rightarrow> json" where
  "normalizeItem idv item =
     (let withId = setProp ''id'' idv (ownProps item);
          withProficiency =
            setProp ''proficiency''
              (case truthyValue (getProp item ''proficiency'') of
                 Some v \<Rightarrow> v
               | None \<Rightarrow> JStr ''new'')
              withId
      in JObj (case getProp item ''tags'' of
                 Some (JArr ts) \<Rightarrow> setProp ''tags'' (JArr ts) withProficiency
               | _ \<Rightarrow> delProp ''tags'' withProficiency))"

text \<open>
  \<^verbatim>\<open>parsed.map(item => ...)\<close> with \<^verbatim>\<open>id: item.id || generateId()\<close>.
  \<^verbatim>\<open>generateId\<close> returns \<^verbatim>\<open>crypto.randomUUID()\<close> or a string built from the clock
  and \<^verbatim>\<open>Math.random()\<close>: \<open>generateId k\<close> is the string its \<open>k\<close>-th call returns.
\<close>

fun normalizeItems :: "(nat \<Rightarrow> string) \<Rightarrow> nat \<Rightarrow> json list \<Rightarrow> json list" where
  "normalizeItems generateId k [] = []"
| "normalizeItems generateId k (item # rest) =
     (case truthyValue (getProp item ''id'') of
        Some v \<Rightarrow> normalizeItem v item # normalizeItems generateId k rest
      | None \<Rightarrow>
          normalizeItem (JStr (generateId k)) item # normalizeItems generateId (Suc k) rest)"

text \<open>
  \<^verbatim>\<open>parseAndValidate(text)\<close>. \<open>JSON_parse\<close> is \<^verbatim>\<open>JSON.parse\<close>, with \<open>None\<close>
  where it throws.
\<close>

definition parseAndValidate ::
  "(string \<Rightarrow> json option) \<Rightarrow> (nat \<Rightarrow> string) \<Rightarrow> string \<Rightarrow> Thrown + json list" where
  "parseAndValidate JSON_parse generateId src =
     (case JSON_parse src of
        None \<Rightarrow> Inl SyntaxError
      | Some (JArr parsed) \<Rightarrow>
          (case every parsed of
             Inl e \<Rightarrow> Inl e
           | Inr isValid \<Rightarrow>
               if \<not> isValid then Inl (Error ''Each card must have a question and answer.'')
               else Inr (normalizeItems generateId 0 parsed))
      | Some other \<Rightarrow> Inl (Error ''Data must be an array''))"

text \<open>
  The state of the Editor that its two submit handlers touch. \<open>Replaced\<close> is the
  message \<^verbatim>\<open>"Data replaced successfully!"\<close> and \<open>Appended n\<close> the message
  \<^verbatim>\<open>`Successfully appended ${n} new cards!`\<close>.
\<close>

datatype Notice = Replaced | Appended nat

record EditorState =
  jsonText :: string
  error :: "Thrown option"
  successMsg :: "Notice option"
  showAppendModal :: bool
  appendText :: string
  appendError :: "Thrown option"

definition showSuccess :: "Notice \<Rightarrow> EditorState \<Rightarrow> EditorState" where
  "showSuccess msg ed = ed\<lparr>error := None, successMsg := Some msg\<rparr>"

text \<open>
  \<^verbatim>\<open>handleSave\<close> and \<^verbatim>\<open>handleAppendSubmit\<close>, on the pair of the state of the
  component that owns the callbacks \<^verbatim>\<open>onSave\<close>, \<^verbatim>\<open>onAppend\<close> and the state of the
  Editor: \<^verbatim>\<open>try { const data = parseAndValidate(...); onSave(data); showSuccess(...) }
  catch (e) { setError(e.message); setSuccessMsg(null) }\<close>.
\<close>

definition handleSave ::
  "(string \<Rightarrow> json option) \<Rightarrow> (nat \<Rightarrow> string) \<Rightarrow> (json list \<Rightarrow> 'app \<Rightarrow> 'app) \<Rightarrow>
     'app \<times> EditorState \<Rightarrow> 'app \<times> EditorState" where
  "handleSave JSON_parse generateId onSave =
     (\<lambda>(app, ed).
        case parseAndValidate JSON_parse generateId (jsonText ed) of
          Inr data \<Rightarrow> (onSave data app, showSuccess Replaced ed)
        | Inl e \<Rightarrow> (app, ed\<lparr>error := Some e, successMsg := None\<rparr>))"

definition handleAppendSubmit ::
  "(string \<Rightarrow> json option) \<Rightarrow> (nat \<Rightarrow> string) \<Rightarrow> (json list \<Rightarrow> 'app \<Rightarrow> 'app) \<Rightarrow>
     'app \<times> EditorState \<Rightarrow> 'app \<times> EditorState" where
  "handleAppendSubmit JSON_parse generateId onAppend =
     (\<lambda>(app, ed).
        case parseAndValidate JSON_parse generateId (appendText ed) of
          Inr data \<Rightarrow>
            (onAppend data app,
             showSuccess (Appended (length data))
               (ed\<lparr>showAppendModal := False, appendText := [], appendError := None\<rparr>))
        | Inl e \<Rightarrow> (app, ed\<lparr>appendError := Some e\<rparr>))"

text \<open>
  The App passes \<^verbatim>\<open>handleSaveData\<close> and \<^verbatim>\<open>handleAppendData\<close> as the callbacks; they
  take the normalised objects as \<^verbatim>\<open>Card[]\<close>. The annotation is erased at run time and
  the App holds the objects as they are. How an object is read as a value of the record
  \<open>Card\<close> is the parameter \<open>asCard\<close> of the two callbacks; nothing is assumed of it.
\<close>

definition onSaveApp :: "(json \<Rightarrow> Card) \<Rightarrow> json list \<Rightarrow> AppState \<Rightarrow> AppState" where
  "onSaveApp asCard data = handleSaveData (map asCard data)"

definition onAppendApp :: "(json \<Rightarrow> Card) \<Rightarrow> json list \<Rightarrow> AppState \<Rightarrow> AppState" where
  "onAppendApp asCard data = handleAppendData (map asCard data)"

text \<open>
  The conditions on an import in the words of the specification: a card lacks a field
  when the field is absent or empty (not truthy; an item that is no object lacks every
  field), and the input is no sequence when it does not parse to an array.
\<close>

definition lacks :: "string \<Rightarrow> json \<Rightarrow> bool" where
  "lacks f item =
     (case item of
        JObj kvs \<Rightarrow> (case map_of kvs f of None \<Rightarrow> True | Some v \<Rightarrow> \<not> truthy v)
      | _ \<Rightarrow> True)"

definition notSequence :: "json option \<Rightarrow> bool" where
  "notSequence parsed = (case parsed of Some (JArr items) \<Rightarrow> False | _ \<Rightarrow> True)"

definition cardsOf :: "json option \<Rightarrow> json list" where
  "cardsOf parsed = (case parsed of Some (JArr items) \<Rightarrow> items | _ \<Rightarrow> [])"

text \<open>The ids an import brings along, in order, and the id of a normalised card.\<close>

definition suppliedIds :: "json list \<Rightarrow> json list" where
  "suppliedIds items = List.map_filter (\<lambda>item. truthyValue (getProp item ''id'')) items"

definition idOf :: "json \<Rightarrow> json option" where
  "idOf obj = getProp obj ''id''"

section \<open>Auxiliary notions and example data\<close>

text \<open>
  The invariant of the cursor: the raw index is never negative, and every pending
  timeout captured a positive length (so \<^verbatim>\<open>%\<close> never sees a zero divisor).
\<close>

definition cursorOk :: "AppState \<Rightarrow> bool" where
  "cursorOk s = (0 \<le> currentIndex s \<and> list_all (\<lambda>(d, n). 0 < n) (timers s))"

text \<open>
  All sequences of \<open>k\<close> comparator outcomes, and a sequence read as the outcomes of
  the first calls of the comparator. \<^verbatim>\<open>Math.random() - 0.5\<close> is taken to be negative
  or not with equal chance, so that the sequences of one length are equally likely.
\<close>

fun coins :: "nat \<Rightarrow> bool list list" where
  "coins 0 = [[]]"
| "coins (Suc k) = map ((#) True) (coins k) @ map ((#) False) (coins k)"

definition outcomes :: "bool list \<Rightarrow> nat \<Rightarrow> bool" where
  "outcomes bs k = (k < length bs \<and> bs ! k)"

text \<open>Example cards, stores and sessions.\<close>

definition exCard :: "string \<Rightarrow> string list option \<Rightarrow> Proficiency option \<Rightarrow> Card" where
  "exCard i ts p =
     \<lparr>card_id = i, category = ''General'', question = ''Q'' @ i, answer = ''A'' @ i,
      details = None, tags = ts, proficiency = p\<rparr>"

definition exStore :: LocalStorage where
  "exStore = \<lparr>stored = None, accepts = (\<lambda>cs. True)\<rparr>"

definition exABC :: "Card list" where
  "exABC =
     [exCard ''A'' None (Some New), exCard ''B'' None (Some New), exCard ''C'' None (Some New)]"

definition exTagged :: "Card list" where
  "exTagged =
     [exCard ''A'' (Some [''t'']) (Some New), exCard ''B'' (Some [''t'']) (Some New),
      exCard ''C'' (Some [''t'']) (Some New)]"

definition exAtA :: AppState where
  "exAtA = mount (loadCards exABC) exStore"

definition exAtC :: AppState where
  "exAtC = run [Next, Tick, Next, Tick] (mount (loadCards exABC) exStore)"

definition exNewAtB :: AppState where
  "exNewAtB = run [SetFilterMode (FProf New), Next, Tick] (mount (loadCards exABC) exStore)"

text \<open>
  A session in which a step is still pending when the shown card is deleted, and one
  in which the tag of the shown card is edited away while the tag filter is active.
\<close>

definition exRun :: "Event list" where
  "exRun =
     [Next, Tick, Mark Known, Tick, SetFilterMode (FProf New), Next, Prev, Delete True, Tick]"

definition exStale :: AppState where
  "exStale =
     run [SetSelectedTag ''t'', Next, Tick, Next, Tick, EditCard,
          UpdateCard (exCard ''C'' None (Some New))]
       (mount (loadCards exTagged) exStore)"

text \<open>A session whose first mark has written the collection to the store.\<close>

definition exSaved :: AppState where
  "exSaved = run [Mark Known, Tick] exAtA"

text \<open>
  Example imports. \<open>exGen\<close> plays \<^verbatim>\<open>generateId\<close>, and \<open>exParse\<close> plays
  \<^verbatim>\<open>JSON.parse\<close> on the texts used below: \<^verbatim>\<open>import\<close> and \<^verbatim>\<open>duplicate\<close>
  name the JSON texts of the two arrays, the other texts are literal.
\<close>

definition exGen :: "nat \<Rightarrow> string" where
  "exGen k = ''uuid-'' @ replicate k (CHR ''x'')"

definition exImportItems :: "json list" where
  "exImportItems =
     [JObj [(''question'', JStr ''q1''), (''answer'', JStr ''a1''),
            (''tags'', JArr [JStr ''t''])],
      JObj [(''id'', JStr ''k2''), (''question'', JStr ''q2''), (''answer'', JStr ''a2''),
            (''proficiency'', JStr ''known''), (''tags'', JStr ''none'')]]"

definition exDuplicateItems :: "json list" where
  "exDuplicateItems =
     [JObj [(''id'', JStr ''k1''), (''question'', JStr ''q1''), (''answer'', JStr ''a1''),
            (''tags'', JArr [])],
      JObj [(''id'', JStr ''k1''), (''question'', JStr ''q2''), (''answer'', JStr ''a2'')]]"

definition exParse :: "string \<Rightarrow> json option" where
  "exParse src =
     (if src = ''import'' then Some (JArr exImportItems)
      else if src = ''duplicate'' then Some (JArr exDuplicateItems)
      else if src = ''[{}]'' then Some (JArr [JObj []])
      else if src = ''{}'' then Some (JObj [])
      else if src = ''[null]'' then Some (JArr [JNull])
      else None)"

definition exEditor :: EditorState where
  "exEditor =
     \<lparr>jsonText = ''[{}]'', error = None, successMsg = Some Replaced, showAppendModal = True,
      appendText = ''{}'', appendError = None\<rparr>"

section \<open>Lemmas\<close>

subsection \<open>The filter as one predicate\<close>

lemma proficiencyStage_filter:
  "proficiencyStage fm cs = filter (passesProficiency fm) cs"
proof (cases fm)
  case FAll
  then show ?thesis by (simp add: passesProficiency_def)
next
  case (FProf p)
  then show ?thesis by (cases p) (auto simp: passesProficiency_def intro: filter_cong)
qed

lemma tagStage_filter: "tagStage t cs = filter (passesTag t) cs"
  by (auto simp: tagStage_def passesTag_def includesTag_def split: option.splits
      intro!: filter_cong)

lemma visible_filter: "visible cs fm t = filter (passesFilters fm t) cs"
  by (simp add: visible_def proficiencyStage_filter tagStage_filter
      passesFilters_def [abs_def] conj_commute)

lemmas handler_defs =
  handleNext_def handlePrev_def scheduleStep_def tick_def flip_def settle_def
  setFilterMode_def setSelectedTag_def setMode_def handleMark_def handleDeleteCard_def
  handleShuffle_def handleEditCard_def handleUpdateCard_def handleSaveData_def
  handleAppendData_def handleReset_def mount_def loadCards_def loadCards0_def
  resetData_def resetData0_def saveCards_def
  displayCards_def visible_def tagStage_def includesTag_def effectiveIndex_def
  currentCard_def js_rem_def Let_def

lemmas ex_defs = exCard_def exStore_def exABC_def exTagged_def

subsection \<open>The cursor\<close>

lemma js_rem_nonneg: "0 \<le> a \<Longrightarrow> 0 \<le> js_rem a b"
  by (cases "b = 0") (auto simp: js_rem_def sgn_if)

lemma js_rem_pos: "0 \<le> a \<Longrightarrow> 0 < b \<Longrightarrow> js_rem a b = a mod b"
  by (simp add: js_rem_def sgn_if)

lemma stepIndex_nonneg: "0 \<le> prev \<Longrightarrow> 0 < n \<Longrightarrow> 0 \<le> stepIndex d n prev"
  by (cases d) (auto simp: Let_def intro!: js_rem_nonneg)

lemma stepIndex_Fwd_in_range:
  "0 \<le> i \<Longrightarrow> i < n \<Longrightarrow> stepIndex Fwd n i = (i + 1) mod n"
  by (simp add: js_rem_pos)

lemma cursorOk_react: "cursorOk s \<Longrightarrow> cursorOk (react e s)"
  by (cases e)
    (auto simp: cursorOk_def handleNext_def handlePrev_def scheduleStep_def tick_def flip_def
     setFilterMode_def setSelectedTag_def setMode_def handleMark_def handleDeleteCard_def
     handleShuffle_def handleEditCard_def handleUpdateCard_def handleSaveData_def
     handleAppendData_def handleReset_def Let_def stepIndex_nonneg
     split: list.splits option.splits prod.splits)

lemma cursorOk_run: "cursorOk s \<Longrightarrow> cursorOk (run es s)"
  by (induction es arbitrary: s) (simp_all add: cursorOk_react)

lemma effectiveIndex_range:
  "0 \<le> currentIndex s \<Longrightarrow> 0 \<le> effectiveIndex s \<and>
     (displayCards s \<noteq> [] \<longrightarrow> effectiveIndex s < int (length (displayCards s)))"
  by (cases "displayCards s") (auto simp: effectiveIndex_def)

lemma currentCard_nonempty:
  "0 \<le> currentIndex s \<Longrightarrow> displayCards s \<noteq> [] \<Longrightarrow>
     currentCard s = Some (displayCards s ! nat (effectiveIndex s))"
  using effectiveIndex_range [of s] by (simp add: currentCard_def Let_def)

lemma currentCard_empty: "displayCards s = [] \<Longrightarrow> currentCard s = None"
  by (simp add: currentCard_def Let_def)

lemma empty_noops:
  "displayCards s = [] \<Longrightarrow>
     handleNext s = s \<and> handlePrev s = s \<and> handleMark p s = s \<and> handleDeleteCard b s = s"
  by (simp add: handleNext_def handlePrev_def scheduleStep_def handleMark_def
      handleDeleteCard_def currentCard_empty)

lemma currentCard_SomeD:
  assumes "currentCard s = Some cur"
  shows "0 \<le> effectiveIndex s" and "effectiveIndex s < int (length (displayCards s))"
    and "cur = displayCards s ! nat (effectiveIndex s)"
    and "0 \<le> currentIndex s"
    and "effectiveIndex s < int (length (displayCards s)) - 1 \<Longrightarrow>
           currentIndex s = effectiveIndex s"
  using assms by (auto simp: currentCard_def Let_def effectiveIndex_def split: if_splits)

lemma settle_simps:
  "currentIndex (settle s) = foldl (\<lambda>i (d, n). stepIndex d n i) (currentIndex s) (timers s)"
  "isFlipped (settle s) = isFlipped s" "timers (settle s) = []" "cards (settle s) = cards s"
  "filterMode (settle s) = filterMode s" "selectedTag (settle s) = selectedTag s"
  "storage (settle s) = storage s"
  by (simp_all add: settle_def)

lemma next_cursor:
  assumes "displayCards s \<noteq> []"
  shows "isFlipped (handleNext s) = False"
    and "timers (handleNext s) = timers s @ [(Fwd, int (length (displayCards s)))]"
    and "currentIndex (handleNext s) = currentIndex s"
  using assms by (simp_all add: handleNext_def scheduleStep_def)

lemma displayCards_subset: "set (displayCards s) \<subseteq> set (cards s)"
  by (simp add: displayCards_def visible_filter)

lemma distinct_displayCards:
  "distinct (map card_id (cards s)) \<Longrightarrow> distinct (map card_id (displayCards s))"
  by (simp add: displayCards_def visible_filter distinct_map_filter)

text \<open>\<open>settle\<close> is every pending timeout firing in turn.\<close>

lemma settle_no_timers: "timers s = [] \<Longrightarrow> settle s = s"
  by (simp add: settle_def)

lemma settle_tick: "settle (tick s) = settle s"
  by (cases "timers s") (auto simp: settle_def tick_def)

lemma length_timers_tick: "length (timers (tick s)) = length (timers s) - 1"
  by (cases "timers s") (auto simp: tick_def)

lemma settle_as_ticks: "settle s = run (replicate (length (timers s)) Tick) s"
proof (induction "length (timers s)" arbitrary: s)
  case 0
  then show ?case by (simp add: settle_no_timers)
next
  case (Suc k)
  then have "k = length (timers (tick s))"
    by (simp add: length_timers_tick)
  then have "settle (tick s) = run (replicate k Tick) (tick s)"
    using Suc.hyps(1) by simp
  then show ?case
    using Suc.hyps(2) [symmetric] by (simp add: settle_tick)
qed

text \<open>
  From a raw index within the visible sequence and with nothing pending, next and
  previous unflip and move one position, modulo the visible length.
\<close>

lemma stepIndex_Bwd_in_range:
  "0 \<le> i \<Longrightarrow> i < n \<Longrightarrow> stepIndex Bwd n i = (i - 1) mod n"
  by (simp add: js_rem_pos)

lemma next_prev_in_range:
  assumes "timers s = []" and "0 \<le> currentIndex s"
    and "currentIndex s < int (length (displayCards s))"
  shows "currentIndex (settle (handleNext s)) =
      (effectiveIndex s + 1) mod int (length (displayCards s))"
    and "currentIndex (settle (handlePrev s)) =
      (effectiveIndex s - 1) mod int (length (displayCards s))"
    and "isFlipped (settle (handleNext s)) = False"
    and "isFlipped (settle (handlePrev s)) = False"
proof -
  have e: "effectiveIndex s = currentIndex s"
    using assms(3) by (simp add: effectiveIndex_def)
  have n: "int (length (displayCards s)) \<noteq> 0"
    using assms(2,3) by auto
  show "currentIndex (settle (handleNext s)) =
      (effectiveIndex s + 1) mod int (length (displayCards s))"
    using assms n stepIndex_Fwd_in_range [OF assms(2,3)]
    by (simp add: e settle_def handleNext_def scheduleStep_def del: stepIndex.simps)
  show "currentIndex (settle (handlePrev s)) =
      (effectiveIndex s - 1) mod int (length (displayCards s))"
    using assms n stepIndex_Bwd_in_range [OF assms(2,3)]
    by (simp add: e settle_def handlePrev_def scheduleStep_def del: stepIndex.simps)
  show "isFlipped (settle (handleNext s)) = False" "isFlipped (settle (handlePrev s)) = False"
    using n by (simp_all add: settle_def handleNext_def handlePrev_def scheduleStep_def)
qed

subsection \<open>Mark and delete\<close>

lemma willStayVisible_iff:
  "((fm = FAll \<or> fm = FProf p) \<and> (t = [] \<or> includesTag t cur)) =
     passesFilters fm t (cur\<lparr>proficiency := Some p\<rparr>)"
  by (cases fm; cases p)
    (auto simp: passesFilters_def passesProficiency_def passesTag_def includesTag_def
      split: option.splits Proficiency.splits)

lemma delete_cursor:
  assumes "currentCard s = Some cur"
  shows "isFlipped (handleDeleteCard True s) = False"
    and "currentIndex (handleDeleteCard True s) =
      (if effectiveIndex s = int (length (displayCards s)) - 1
       then max 0 (effectiveIndex s - 1) else currentIndex s)"
    and "cards (handleDeleteCard True s) = filter (\<lambda>c. card_id c \<noteq> card_id cur) (cards s)"
    and "timers (handleDeleteCard True s) = timers s"
  using assms currentCard_SomeD(1,2) [OF assms]
  by (auto simp: handleDeleteCard_def Let_def)

lemma mark_leaving_cursor:
  assumes "currentCard s = Some cur"
    and "\<not> passesFilters (filterMode s) (selectedTag s) (cur\<lparr>proficiency := Some p\<rparr>)"
  shows "isFlipped (handleMark p s) = False"
    and "currentIndex (handleMark p s) =
      (if effectiveIndex s = int (length (displayCards s)) - 1
       then max 0 (effectiveIndex s - 1) else currentIndex s)"
    and "cards (handleMark p s) =
      map (\<lambda>c. if card_id c = card_id cur then c\<lparr>proficiency := Some p\<rparr> else c) (cards s)"
    and "timers (handleMark p s) = timers s"
  using assms(1) currentCard_SomeD(1,2) [OF assms(1)]
    assms(2) [folded willStayVisible_iff]
  by (auto simp: handleMark_def Let_def)

lemma filter_other_ids:
  "distinct (map f xs) \<Longrightarrow> i < length xs \<Longrightarrow>
     filter (\<lambda>x. f x \<noteq> f (xs ! i)) xs = take i xs @ drop (Suc i) xs"
proof (induction xs arbitrary: i)
  case Nil
  then show ?case by simp
next
  case (Cons x xs)
  show ?case
  proof (cases i)
    case 0
    have "\<forall>y \<in> set xs. f y \<noteq> f x"
      using Cons.prems(1) by (force simp: image_iff)
    then have "filter (\<lambda>y. f y \<noteq> f x) xs = xs"
      by (simp add: filter_id_conv)
    then show ?thesis using 0 by simp
  next
    case (Suc j)
    then have j: "j < length xs" using Cons.prems(2) by simp
    then have "f x \<noteq> f (xs ! j)"
      using Cons.prems(1) by (force simp: image_iff)
    then show ?thesis
      using Suc Cons.IH [OF _ j] Cons.prems(1) by simp
  qed
qed

lemma filter_map_cases:
  "\<forall>c \<in> set xs. (if P (g c) then g c = c \<and> R c else \<not> R c) \<Longrightarrow>
     filter P (map g xs) = filter R xs"
  by (induction xs) (auto split: if_splits)

lemma displayCards_delete:
  assumes "currentCard s = Some cur" and "distinct (map card_id (cards s))"
  shows "displayCards (handleDeleteCard True s) =
     take (nat (effectiveIndex s)) (displayCards s) @
     drop (Suc (nat (effectiveIndex s))) (displayCards s)"
proof -
  note cc = currentCard_SomeD [OF assms(1)]
  have "displayCards (handleDeleteCard True s) =
      filter (\<lambda>c. card_id c \<noteq> card_id cur) (displayCards s)"
    using assms(1)
    by (auto simp: handleDeleteCard_def Let_def displayCards_def visible_filter
        intro: filter_cong)
  also have "\<dots> = take (nat (effectiveIndex s)) (displayCards s) @
     drop (Suc (nat (effectiveIndex s))) (displayCards s)"
    unfolding cc(3)
    by (rule filter_other_ids) (use cc(1,2) assms(2) in \<open>auto simp: distinct_displayCards\<close>)
  finally show ?thesis .
qed

lemma displayCards_mark_leaving:
  assumes "currentCard s = Some cur" and "distinct (map card_id (cards s))"
    and "\<not> passesFilters (filterMode s) (selectedTag s) (cur\<lparr>proficiency := Some p\<rparr>)"
  shows "displayCards (handleMark p s) =
     take (nat (effectiveIndex s)) (displayCards s) @
     drop (Suc (nat (effectiveIndex s))) (displayCards s)"
proof -
  note cc = currentCard_SomeD [OF assms(1)]
  have cur_in: "cur \<in> set (cards s)"
    using cc(1,2,3) displayCards_subset [of s] by (auto simp: nth_mem)
  have inj: "inj_on card_id (set (cards s))"
    using assms(2) by (simp add: distinct_map)
  have same: "c = cur" if "c \<in> set (cards s)" "card_id c = card_id cur" for c
    using inj that cur_in by (auto dest: inj_onD)
  have "displayCards (handleMark p s) =
      filter (passesFilters (filterMode s) (selectedTag s))
        (map (\<lambda>c. if card_id c = card_id cur then c\<lparr>proficiency := Some p\<rparr> else c) (cards s))"
    using mark_leaving_cursor(3) [OF assms(1,3)] assms(1)
      assms(3) [folded willStayVisible_iff]
    by (auto simp: displayCards_def visible_filter handleMark_def Let_def)
  also have "\<dots> = filter (\<lambda>c. passesFilters (filterMode s) (selectedTag s) c \<and>
      card_id c \<noteq> card_id cur) (cards s)"
    by (rule filter_map_cases) (use same assms(3) in auto)
  also have "\<dots> = filter (\<lambda>c. card_id c \<noteq> card_id cur) (displayCards s)"
    by (simp add: displayCards_def visible_filter conj_commute)
  also have "\<dots> = take (nat (effectiveIndex s)) (displayCards s) @
     drop (Suc (nat (effectiveIndex s))) (displayCards s)"
    unfolding cc(3)
    by (rule filter_other_ids) (use cc(1,2) assms(2) in \<open>auto simp: distinct_displayCards\<close>)
  finally show ?thesis .
qed

text \<open>What is shown once the shown card has been cut out of the visible sequence.\<close>

lemma after_shrink:
  assumes e: "e < length dc"
    and dc': "displayCards s' = take e dc @ drop (Suc e) dc"
    and idx: "currentIndex s' = (if e = length dc - 1 then max 0 (int e - 1) else int e)"
  shows "length (displayCards s') = length dc - 1"
    and "Suc e < length dc \<Longrightarrow> effectiveIndex s' = int e \<and> currentCard s' = Some (dc ! Suc e)"
    and "Suc e = length dc \<Longrightarrow> 0 < e \<Longrightarrow>
           effectiveIndex s' = int e - 1 \<and> currentCard s' = Some (dc ! (e - 1))"
    and "length dc = 1 \<Longrightarrow> displayCards s' = [] \<and> effectiveIndex s' = 0 \<and> currentCard s' = None"
proof -
  show len: "length (displayCards s') = length dc - 1"
    using e by (simp add: dc')
  show "effectiveIndex s' = int e \<and> currentCard s' = Some (dc ! Suc e)" if "Suc e < length dc"
  proof -
    have ei: "effectiveIndex s' = int e"
      using that len idx by (simp add: effectiveIndex_def)
    have "(take e dc @ drop (Suc e) dc) ! e = dc ! Suc e"
      using that by (simp add: nth_append)
    then show ?thesis
      using that ei len by (simp add: currentCard_def Let_def dc')
  qed
  show "effectiveIndex s' = int e - 1 \<and> currentCard s' = Some (dc ! (e - 1))"
    if "Suc e = length dc" "0 < e"
  proof -
    have ei: "effectiveIndex s' = int e - 1"
      using that len idx by (auto simp: effectiveIndex_def)
    have "(take e dc @ drop (Suc e) dc) ! (e - 1) = dc ! (e - 1)"
      using that by (simp add: nth_append)
    moreover have "nat (int e - 1) = e - 1"
      by simp
    ultimately show ?thesis
      using that ei len by (simp add: currentCard_def Let_def dc')
  qed
  show "displayCards s' = [] \<and> effectiveIndex s' = 0 \<and> currentCard s' = None"
    if "length dc = 1"
    using that e idx by (simp add: dc' effectiveIndex_def currentCard_def Let_def)
qed

lemma mark_cards:
  assumes "currentCard s = Some cur"
  shows "cards (handleMark p s) =
      map (\<lambda>c. if card_id c = card_id cur then c\<lparr>proficiency := Some p\<rparr> else c) (cards s)"
    and "storage (handleMark p s) = saveCards (cards (handleMark p s)) (storage s)"
    and "filterMode (handleMark p s) = filterMode s"
    and "selectedTag (handleMark p s) = selectedTag s"
  using assms by (auto simp: handleMark_def Let_def scheduleStep_def)

lemma mark_staying_cursor:
  assumes "currentCard s = Some cur"
    and "passesFilters (filterMode s) (selectedTag s) (cur\<lparr>proficiency := Some p\<rparr>)"
  shows "isFlipped (handleMark p s) = False"
    and "timers (handleMark p s) = timers s @ [(Fwd, int (length (displayCards s)))]"
    and "currentIndex (handleMark p s) = currentIndex s"
  using assms(1) currentCard_SomeD(1,2) [OF assms(1)] assms(2) [folded willStayVisible_iff]
  by (auto simp: handleMark_def Let_def scheduleStep_def)

lemma mark_as_list_update:
  assumes "distinct (map card_id xs)" and "k < length xs"
  shows "map (\<lambda>c. if card_id c = card_id (xs ! k) then g c else c) xs = xs[k := g (xs ! k)]"
proof (rule nth_equalityI)
  show "length (map (\<lambda>c. if card_id c = card_id (xs ! k) then g c else c) xs) =
      length (xs[k := g (xs ! k)])"
    by simp
next
  fix i
  assume "i < length (map (\<lambda>c. if card_id c = card_id (xs ! k) then g c else c) xs)"
  then have i: "i < length xs" by simp
  have "card_id (xs ! i) = card_id (xs ! k) \<longleftrightarrow> i = k"
    using assms i by (auto simp: distinct_conv_nth)
  then show "map (\<lambda>c. if card_id c = card_id (xs ! k) then g c else c) xs ! i =
      xs[k := g (xs ! k)] ! i"
    using i by (auto simp: nth_list_update)
qed

lemma displayCards_mark_staying:
  assumes "currentCard s = Some cur" and "distinct (map card_id (cards s))"
    and "passesFilters (filterMode s) (selectedTag s) (cur\<lparr>proficiency := Some p\<rparr>)"
  shows "displayCards (handleMark p s) =
     (displayCards s)[nat (effectiveIndex s) := cur\<lparr>proficiency := Some p\<rparr>]"
proof -
  note cc = currentCard_SomeD [OF assms(1)]
  let ?upd = "\<lambda>c. if card_id c = card_id cur then c\<lparr>proficiency := Some p\<rparr> else c"
  let ?P = "passesFilters (filterMode s) (selectedTag s)"
  have cur_dc: "cur \<in> set (displayCards s)"
    using cc(1,2,3) by (auto simp: nth_mem)
  then have cur_in: "cur \<in> set (cards s)" and cur_ok: "?P cur"
    by (auto simp: displayCards_def visible_filter)
  have inj: "inj_on card_id (set (cards s))"
    using assms(2) by (simp add: distinct_map)
  have same: "c = cur" if "c \<in> set (cards s)" "card_id c = card_id cur" for c
    using inj that cur_in by (auto dest: inj_onD)
  have "displayCards (handleMark p s) = filter ?P (map ?upd (cards s))"
    using mark_cards [OF assms(1)] by (simp add: displayCards_def visible_filter)
  also have "\<dots> = map ?upd (filter (?P \<circ> ?upd) (cards s))"
    by (simp add: filter_map)
  also have "filter (?P \<circ> ?upd) (cards s) = filter ?P (cards s)"
    by (rule filter_cong) (use same assms(3) cur_ok in auto)
  also have "filter ?P (cards s) = displayCards s"
    by (simp add: displayCards_def visible_filter)
  also have "map ?upd (displayCards s) =
      (displayCards s)[nat (effectiveIndex s) := cur\<lparr>proficiency := Some p\<rparr>]"
    using mark_as_list_update [of "displayCards s" "nat (effectiveIndex s)"
        "\<lambda>c. c\<lparr>proficiency := Some p\<rparr>"]
      cc(1,2,3) distinct_displayCards [OF assms(2)]
    by simp
  finally show ?thesis .
qed

subsection \<open>The random sort\<close>

lemma mset_binaryInsertionSort:
  "mset (binaryInsertionSort rnd k placed rest) = mset placed + mset rest"
proof (induction rest arbitrary: k placed)
  case Nil
  show ?case by simp
next
  case (Cons pivot rest)
  obtain k' left where b: "binarySearch rnd k 0 (length placed) = (k', left)"
    by (cases "binarySearch rnd k 0 (length placed)")
  have "mset (take left placed @ pivot # drop left placed) = add_mset pivot (mset placed)"
    by (metis append_take_drop_id mset.simps(2) mset_append union_mset_add_mset_right)
  then show ?case
    using b Cons.IH [of k' "take left placed @ pivot # drop left placed"] by simp
qed

lemma mset_sortOneRun: "mset (sortOneRun rnd a) = mset a"
proof -
  have "mset (take n a) + mset (drop n a) = mset a" for n
    by (metis append_take_drop_id mset_append)
  then show ?thesis
    by (simp add: sortOneRun_def Let_def mset_binaryInsertionSort)
qed

lemma mset_exchange: "mset (exchange a p) = mset a"
  by (cases p) (simp add: mset_swap)

lemma mset_foldl_exchange: "mset (foldl exchange a ps) = mset a"
  by (induction ps arbitrary: a) (simp_all add: mset_exchange del: exchange.simps)

lemma mset_sortRandom: "mset (sortRandom merged rnd a) = mset a"
  by (simp add: sortRandom_def mset_sortOneRun mset_foldl_exchange)

text \<open>
  When every call of the comparator returns a negative number, three elements are one
  descending run and come out reversed.
\<close>

lemma sortRandom_reverse: "sortRandom merged (\<lambda>k. True) [a, b, c] = [c, b, a]"
  by (simp add: sortRandom_def sortOneRun_def countRun.simps binarySearch.simps
      Let_def numeral_2_eq_2 numeral_3_eq_3)

text \<open>The sort of three elements makes at most four calls of the comparator.\<close>

lemma sortRandom_four_calls:
  assumes "rnd 0 = rnd' 0" "rnd 1 = rnd' 1" "rnd 2 = rnd' 2" "rnd 3 = rnd' 3"
  shows "sortRandom merged rnd [a, b, c] = sortRandom merged rnd' [a, b, c]"
  using assms
  by (cases "rnd' 0"; cases "rnd' 1"; cases "rnd' 2"; cases "rnd' 3")
    (simp_all add: sortRandom_def sortOneRun_def countRun.simps binarySearch.simps
      Let_def numeral_2_eq_2 numeral_3_eq_3)

lemma power2_mod_3: "(2::nat) ^ k mod 3 = 1 \<or> (2::nat) ^ k mod 3 = 2"
proof (induction k)
  case 0
  show ?case by simp
next
  case (Suc k)
  have "(2::nat) ^ Suc k mod 3 = (2 * (2 ^ k mod 3)) mod 3"
    by (simp add: mod_mult_right_eq)
  then show ?case
    using Suc by auto
qed

lemma not_3_dvd_power2: "\<not> 3 dvd (2::nat) ^ k"
  using power2_mod_3 [of k] by (auto simp: dvd_eq_mod_eq_0)

text \<open>
  Whatever a procedure makes of \<open>k\<close> equally likely comparator outcomes, no result has
  the probability 1/6 that a uniform choice among the orders of three cards needs: the
  number of favourable sequences, times 6, is never \<open>2 ^ k\<close>.
\<close>

lemma uniform_impossible:
  "6 * length (filter (\<lambda>bs. f bs = ys) (coins k)) \<noteq> (2::nat) ^ k"
proof
  assume "6 * length (filter (\<lambda>bs. f bs = ys) (coins k)) = (2::nat) ^ k"
  then have "(2::nat) ^ k = 3 * (2 * length (filter (\<lambda>bs. f bs = ys) (coins k)))"
    by simp
  then have "3 dvd (2::nat) ^ k"
    by (rule dvdI)
  then show False
    by (simp add: not_3_dvd_power2)
qed

subsection \<open>The store\<close>

lemma storage_saveCards:
  "stored (saveCards cs st) = (if accepts st cs then Some cs else stored st)"
  "accepts (saveCards cs st) = accepts st"
  by (simp_all add: saveCards_def)

subsection \<open>Validation and normalisation\<close>

lemma truthyProp_lacks: "truthyProp item f = (\<not> lacks f item)"
  by (cases item) (auto simp: truthyProp_def truthyValue_def lacks_def split: option.splits)

lemma every_True_iff:
  "every items = Inr True \<longleftrightarrow> (\<forall>item \<in> set items. \<not> lacks ''question'' item \<and> \<not> lacks ''answer'' item)"
proof (induction items)
  case Nil
  show ?case by simp
next
  case (Cons item rest)
  show ?case
  proof (cases "item = JNull")
    case True
    then show ?thesis by (simp add: lacks_def)
  next
    case False
    then have "every (item # rest) =
        (if truthyProp item ''question'' \<and> truthyProp item ''answer'' then every rest else Inr False)"
      by (cases item) simp_all
    then show ?thesis
      using Cons.IH by (simp add: truthyProp_lacks)
  qed
qed

lemma parseAndValidate_ok_iff:
  "(\<exists>out. parseAndValidate JSON_parse generateId src = Inr out) \<longleftrightarrow>
     (\<not> notSequence (JSON_parse src) \<and> every (cardsOf (JSON_parse src)) = Inr True)"
  by (auto simp: parseAndValidate_def notSequence_def cardsOf_def
      split: option.splits json.splits sum.splits)



lemma map_of_setProp: "map_of (setProp k v kvs) = (map_of kvs)(k \<mapsto> v)"
  by (induction kvs) (auto simp: fun_eq_iff)

lemma map_of_delProp: "map_of (delProp k kvs) = (map_of kvs)(k := None)"
  by (induction kvs) (auto simp: delProp_def fun_eq_iff)

lemma map_of_ownProps: "map_of (ownProps item) f = getProp item f"
  by (cases item) simp_all

lemma normalizeItem_id: "getProp (normalizeItem idv item) ''id'' = Some idv"
  by (simp add: normalizeItem_def Let_def map_of_setProp map_of_delProp
      split: option.splits json.splits)

lemma normalizeItem_proficiency:
  "getProp (normalizeItem idv item) ''proficiency'' =
     Some (case truthyValue (getProp item ''proficiency'') of Some v \<Rightarrow> v | None \<Rightarrow> JStr ''new'')"
  by (simp add: normalizeItem_def Let_def map_of_setProp map_of_delProp
      split: option.splits json.splits)

lemma normalizeItem_tags:
  "getProp (normalizeItem idv item) ''tags'' =
     (case getProp item ''tags'' of Some (JArr ts) \<Rightarrow> Some (JArr ts) | _ \<Rightarrow> None)"
  by (simp add: normalizeItem_def Let_def map_of_setProp map_of_delProp
      split: option.splits json.splits)

lemma normalizeItem_other:
  "f \<noteq> ''id'' \<Longrightarrow> f \<noteq> ''proficiency'' \<Longrightarrow> f \<noteq> ''tags'' \<Longrightarrow>
     getProp (normalizeItem idv item) f = getProp item f"
  by (simp add: normalizeItem_def Let_def map_of_setProp map_of_delProp map_of_ownProps
      split: option.splits json.splits)

lemma length_normalizeItems: "length (normalizeItems g k items) = length items"
  by (induction items arbitrary: k) (simp_all split: option.splits)

lemma normalizeItems_nth:
  "i < length items \<Longrightarrow>
     \<exists>idv. normalizeItems g k items ! i = normalizeItem idv (items ! i) \<and>
       (case truthyValue (getProp (items ! i) ''id'') of
          Some v \<Rightarrow> idv = v
        | None \<Rightarrow> \<exists>j\<ge>k. idv = JStr (g j))"
proof (induction items arbitrary: k i)
  case Nil
  then show ?case by simp
next
  case (Cons item rest)
  show ?case
  proof (cases i)
    case 0
    then show ?thesis by (auto split: option.splits)
  next
    case (Suc i')
    then have i': "i' < length rest" using Cons.prems by simp
    show ?thesis
    proof (cases "truthyValue (getProp item ''id'')")
      case None
      obtain idv where "normalizeItems g (Suc k) rest ! i' = normalizeItem idv (rest ! i')"
        "case truthyValue (getProp (rest ! i') ''id'') of Some v \<Rightarrow> idv = v
          | None \<Rightarrow> \<exists>j\<ge>Suc k. idv = JStr (g j)"
        using Cons.IH [OF i', of "Suc k"] by blast
      then show ?thesis using None Suc
        by (auto split: option.splits intro: Suc_leD)
    next
      case (Some v)
      then show ?thesis using Cons.IH [OF i', of k] Suc by simp
    qed
  qed
qed

lemma idOf_normalizeItem: "idOf (normalizeItem idv item) = Some idv"
  by (simp add: idOf_def normalizeItem_id)

lemma suppliedIds_Cons:
  "suppliedIds (item # rest) =
     (case truthyValue (getProp item ''id'') of
        None \<Rightarrow> suppliedIds rest
      | Some v \<Rightarrow> v # suppliedIds rest)"
  by (simp add: suppliedIds_def map_filter_simps split: option.splits)

lemma idOf_normalizeItems_subset:
  "set (map idOf (normalizeItems g k items)) \<subseteq>
     Some ` set (suppliedIds items) \<union> {Some (JStr (g j)) | j. k \<le> j}"
proof (induction items arbitrary: k)
  case Nil
  show ?case by simp
next
  case (Cons item rest)
  define G where "G k = {Some (JStr (g j)) | j. k \<le> j}" for k
  have mono: "G (Suc k) \<subseteq> G k"
    unfolding G_def by (auto intro: Suc_leD)
  have hd: "Some (JStr (g k)) \<in> G k"
    unfolding G_def by blast
  have IH: "set (map idOf (normalizeItems g k' rest)) \<subseteq> Some ` set (suppliedIds rest) \<union> G k'"
    for k'
    unfolding G_def by (rule Cons.IH)
  have "set (map idOf (normalizeItems g k (item # rest))) \<subseteq>
      Some ` set (suppliedIds (item # rest)) \<union> G k"
  proof (cases "truthyValue (getProp item ''id'')")
    case None
    have "set (map idOf (normalizeItems g k (item # rest))) =
        insert (Some (JStr (g k))) (set (map idOf (normalizeItems g (Suc k) rest)))"
      using None by (simp add: idOf_normalizeItem)
    moreover have "suppliedIds (item # rest) = suppliedIds rest"
      using None by (simp add: suppliedIds_Cons)
    ultimately show ?thesis
      using IH [of "Suc k"] mono hd by auto
  next
    case (Some v)
    have "set (map idOf (normalizeItems g k (item # rest))) =
        insert (Some v) (set (map idOf (normalizeItems g k rest)))"
      using Some by (simp add: idOf_normalizeItem)
    moreover have "suppliedIds (item # rest) = v # suppliedIds rest"
      using Some by (simp add: suppliedIds_Cons)
    ultimately show ?thesis
      using IH [of k] by auto
  qed
  then show ?case
    unfolding G_def .
qed

lemma distinct_idOf_normalizeItems:
  assumes "distinct (suppliedIds items)" and "inj g"
    and "\<forall>j. JStr (g j) \<notin> set (suppliedIds items)"
  shows "distinct (map idOf (normalizeItems g k items))"
  using assms
proof (induction items arbitrary: k)
  case Nil
  show ?case by simp
next
  case (Cons item rest)
  show ?case
  proof (cases "truthyValue (getProp item ''id'')")
    case None
    then have sup: "suppliedIds (item # rest) = suppliedIds rest"
      by (simp add: suppliedIds_Cons)
    have rest: "distinct (map idOf (normalizeItems g (Suc k) rest))"
      using Cons.IH [of "Suc k"] Cons.prems sup by simp
    have "Some (JStr (g k)) \<notin> set (map idOf (normalizeItems g (Suc k) rest))"
    proof
      assume "Some (JStr (g k)) \<in> set (map idOf (normalizeItems g (Suc k) rest))"
      then have "Some (JStr (g k)) \<in>
          Some ` set (suppliedIds rest) \<union> {Some (JStr (g j)) | j. Suc k \<le> j}"
        using idOf_normalizeItems_subset [of g "Suc k" rest] by blast
      then consider "JStr (g k) \<in> set (suppliedIds rest)"
        | j where "Suc k \<le> j" "g k = g j"
        by auto
      then show False
      proof cases
        case 1
        then show False using Cons.prems(3) sup by simp
      next
        case 2
        then have "k = j" using Cons.prems(2) by (simp add: inj_eq)
        then show False using 2 by simp
      qed
    qed
    then show ?thesis
      using None rest by (simp add: idOf_normalizeItem)
  next
    case (Some v)
    then have sup: "suppliedIds (item # rest) = v # suppliedIds rest"
      by (simp add: suppliedIds_Cons)
    have rest: "distinct (map idOf (normalizeItems g k rest))"
      using Cons.IH [of k] Cons.prems sup by simp
    have "Some v \<notin> set (map idOf (normalizeItems g k rest))"
    proof
      assume "Some v \<in> set (map idOf (normalizeItems g k rest))"
      then have "Some v \<in> Some ` set (suppliedIds rest) \<union> {Some (JStr (g j)) | j. k \<le> j}"
        using idOf_normalizeItems_subset [of g k rest] by blast
      then consider "v \<in> set (suppliedIds rest)" | j where "v = JStr (g j)"
        by auto
      then show False
      proof cases
        case 1
        then show False using Cons.prems(1) sup by simp
      next
        case 2
        then have "JStr (g j) \<in> set (suppliedIds (item # rest))"
          using sup by simp
        then show False using Cons.prems(3) by blast
      qed
    qed
    then show ?thesis
      using Some rest by (simp add: idOf_normalizeItem)
  qed
qed

lemma every_Inl: "every items = Inl e \<Longrightarrow> e = TypeError"
proof (induction items)
  case Nil
  then show ?case by simp
next
  case (Cons item rest)
  then show ?case
    by (cases item) (auto split: if_splits)
qed

lemma every_no_null: "JNull \<notin> set items \<Longrightarrow> \<exists>b. every items = Inr b"
proof (induction items)
  case Nil
  show ?case by auto
next
  case (Cons item rest)
  then show ?case
    by (cases item) auto
qed

lemma exGen_facts: "\<forall>k. exGen k \<noteq> []" "inj exGen"
proof -
  show "\<forall>k. exGen k \<noteq> []"
    by (simp add: exGen_def)
  show "inj exGen"
  proof (rule injI)
    fix x y
    assume "exGen x = exGen y"
    then have "length (exGen x) = length (exGen y)"
      by simp
    then show "x = y"
      by (simp add: exGen_def)
  qed
qed

section \<open>The view filter\<close>

text \<open>
  Claim C5. For every collection, proficiency filter and tag filter, \<open>visible\<close> returns
  exactly the cards that pass both stages (proficiency stage and tag stage, conjunctively),
  in the order of the collection and unchanged: it is the sublist of the collection cut
  out by the conjunction of the two predicates of the specification. With the filter
  \<^verbatim>\<open>new\<close> and no tag it is the sublist of the cards whose proficiency is absent or
  \<^verbatim>\<open>new\<close>, and filtering the result again with the same filters changes nothing.
\<close>

theorem visible_correct:
  "visible cs fm t = filter (passesFilters fm t) cs
   \<and> subseq (visible cs fm t) cs
   \<and> visible cs (FProf New) [] =
       filter (\<lambda>c. proficiency c = None \<or> proficiency c = Some New) cs
   \<and> visible (visible cs fm t) fm t = visible cs fm t"
proof -
  have "visible cs (FProf New) [] =
      filter (\<lambda>c. proficiency c = None \<or> proficiency c = Some New) cs"
    by (simp add: visible_def tagStage_def)
  then show ?thesis
    by (simp add: visible_filter)
qed

section \<open>The session cursor\<close>

text \<open>
  Claim C1. Start with the cursor at position 0 and nothing pending, and let any finite
  sequence of events happen (next, previous, a pending step firing, flip, a change of
  either filter, mark, delete, shuffle, edit, import, reset). Then the raw index is not
  negative, every pending step captured a positive length, and the recomputed
  \<open>effectiveIndex = min rawIndex (max 0 (visibleCount - 1))\<close> is at least 0; when the
  visible sequence is not empty it is below its length and the current card is the card
  at that position. When the visible sequence is empty the effective index is 0, there
  is no current card, next, previous, mark and delete return the state as it is, and
  shuffle and the filter changes lead to states whose effective index is 0 again. No
  handler has a failing branch: each is a total function of the state.
\<close>

theorem cursor_safety:
  assumes "currentIndex s0 = 0" and "timers s0 = []"
  shows "0 \<le> currentIndex (run es s0)
    \<and> 0 \<le> effectiveIndex (run es s0)
    \<and> (\<forall>(d, n) \<in> set (timers (run es s0)). 0 < n)
    \<and> (displayCards (run es s0) \<noteq> [] \<longrightarrow>
          effectiveIndex (run es s0) < int (length (displayCards (run es s0)))
          \<and> currentCard (run es s0) =
              Some (displayCards (run es s0) ! nat (effectiveIndex (run es s0))))
    \<and> (displayCards (run es s0) = [] \<longrightarrow>
          effectiveIndex (run es s0) = 0
          \<and> currentCard (run es s0) = None
          \<and> handleNext (run es s0) = run es s0
          \<and> handlePrev (run es s0) = run es s0
          \<and> handleMark p (run es s0) = run es s0
          \<and> handleDeleteCard b (run es s0) = run es s0
          \<and> effectiveIndex (handleShuffle merged rnd (run es s0)) = 0
          \<and> effectiveIndex (setFilterMode fm (run es s0)) = 0
          \<and> effectiveIndex (setSelectedTag t (run es s0)) = 0)"
proof -
  have "cursorOk s0"
    using assms by (simp add: cursorOk_def)
  then have ok: "cursorOk (run es s0)"
    by (rule cursorOk_run)
  then have idx: "0 \<le> currentIndex (run es s0)"
    by (simp add: cursorOk_def)
  have tm: "\<forall>(d, n) \<in> set (timers (run es s0)). 0 < n"
    using ok by (simp add: cursorOk_def list_all_iff)
  have z: "effectiveIndex s' = 0" if "currentIndex s' = 0" for s'
    using that by (simp add: effectiveIndex_def)
  have e0: "effectiveIndex s' = 0" if "displayCards s' = []" "0 \<le> currentIndex s'" for s'
    using that by (simp add: effectiveIndex_def)
  have f1: "effectiveIndex (setFilterMode fm (run es s0)) = 0"
    if "displayCards (run es s0) = []"
    using that idx e0 [of "run es s0"] by (auto simp: setFilterMode_def intro: z)
  have f2: "effectiveIndex (setSelectedTag t (run es s0)) = 0"
    if "displayCards (run es s0) = []"
    using that idx e0 [of "run es s0"] by (auto simp: setSelectedTag_def intro: z)
  have f3: "effectiveIndex (handleShuffle merged rnd (run es s0)) = 0"
    by (rule z) (simp add: handleShuffle_def)
  show ?thesis
    using idx tm effectiveIndex_range [OF idx] currentCard_nonempty [OF idx]
      currentCard_empty [of "run es s0"] empty_noops [of "run es s0" p b]
      e0 [of "run es s0"] f1 f2 f3
    by simp
qed

text \<open>
  In the session \<open>exRun\<close> the shown card is deleted while two steps are pending; one of
  them then fires with the length 2 it captured and leaves the raw index 1 over a
  visible sequence of one card. With the filter \<^verbatim>\<open>known\<close> nothing is visible.
\<close>

theorem cursor_safety_witness:
  "currentIndex exAtA = 0 \<and> timers exAtA = []
   \<and> displayCards (run exRun exAtA) = [exCard ''C'' None (Some New)]
   \<and> currentIndex (run exRun exAtA) = 1
   \<and> timers (run exRun exAtA) = [(Bwd, 2)]
   \<and> effectiveIndex (run exRun exAtA) < int (length (displayCards (run exRun exAtA)))
   \<and> currentCard (run exRun exAtA) =
       Some (displayCards (run exRun exAtA) ! nat (effectiveIndex (run exRun exAtA)))
   \<and> displayCards (run [SetFilterMode (FProf Known)] exAtA) = []
   \<and> handleNext (run [SetFilterMode (FProf Known)] exAtA) =
       run [SetFilterMode (FProf Known)] exAtA
   \<and> handleMark Known (run [SetFilterMode (FProf Known)] exAtA) =
       run [SetFilterMode (FProf Known)] exAtA
   \<and> handleDeleteCard True (run [SetFilterMode (FProf Known)] exAtA) =
       run [SetFilterMode (FProf Known)] exAtA"
proof -
  have start: "currentIndex exAtA = 0" "timers exAtA = []"
    by (simp_all add: exAtA_def mount_def)
  have shown: "displayCards (run exRun exAtA) = [exCard ''C'' None (Some New)]"
    "currentIndex (run exRun exAtA) = 1" "timers (run exRun exAtA) = [(Bwd, 2)]"
    by (simp_all add: exRun_def exAtA_def handler_defs ex_defs)
  have none: "displayCards (run [SetFilterMode (FProf Known)] exAtA) = []"
    by (simp add: exAtA_def handler_defs ex_defs)
  show ?thesis
    using cursor_safety [OF start, of exRun]
      cursor_safety [OF start, of "[SetFilterMode (FProf Known)]" Known True]
      start shown none
    by simp
qed

section \<open>Reconciliation after a mark or a delete\<close>

text \<open>
  Claim C2 (amended). When the currently shown card leaves the visible set, because the
  deletion is confirmed or because the mark makes it stop matching the active filters,
  the state is unflipped and no step is scheduled. If the effective position was the
  last index of the visible sequence as it was before the removal (that is, beyond the
  new last valid index), the position becomes that position minus 1, floored at 0;
  otherwise the position is left unchanged (and was equal to the effective position).
  When the ids of the collection are pairwise distinct, the visible sequence loses
  exactly the shown card, so that in the second case the card that followed is shown in
  the same slot, in the first case the card before it, and nothing when it was the only
  visible card.
\<close>

theorem shrink_policy:
  assumes "currentCard s = Some cur"
    and "s' = handleDeleteCard True s \<or>
         s' = handleMark p s \<and>
         \<not> passesFilters (filterMode s) (selectedTag s) (cur\<lparr>proficiency := Some p\<rparr>)"
  shows "isFlipped s' = False
    \<and> timers s' = timers s
    \<and> currentIndex s' =
        (if effectiveIndex s = int (length (displayCards s)) - 1
         then max 0 (effectiveIndex s - 1) else currentIndex s)
    \<and> (effectiveIndex s \<noteq> int (length (displayCards s)) - 1 \<longrightarrow>
          currentIndex s = effectiveIndex s)
    \<and> (distinct (map card_id (cards s)) \<longrightarrow>
          displayCards s' = take (nat (effectiveIndex s)) (displayCards s) @
                            drop (Suc (nat (effectiveIndex s))) (displayCards s)
          \<and> int (length (displayCards s')) = int (length (displayCards s)) - 1
          \<and> (effectiveIndex s < int (length (displayCards s)) - 1 \<longrightarrow>
                effectiveIndex s' = effectiveIndex s
                \<and> currentCard s' = Some (displayCards s ! nat (effectiveIndex s + 1)))
          \<and> (effectiveIndex s = int (length (displayCards s)) - 1 \<and> 0 < effectiveIndex s \<longrightarrow>
                effectiveIndex s' = effectiveIndex s - 1
                \<and> currentCard s' = Some (displayCards s ! nat (effectiveIndex s - 1)))
          \<and> (length (displayCards s) = 1 \<longrightarrow>
                displayCards s' = [] \<and> effectiveIndex s' = 0 \<and> currentCard s' = None))"
proof -
  note cc = currentCard_SomeD [OF assms(1)]
  define e where "e = nat (effectiveIndex s)"
  have e: "effectiveIndex s = int e" "e < length (displayCards s)"
    using cc(1,2) by (simp_all add: e_def)
  have basic: "isFlipped s' = False \<and> timers s' = timers s \<and>
      currentIndex s' =
        (if effectiveIndex s = int (length (displayCards s)) - 1
         then max 0 (effectiveIndex s - 1) else currentIndex s)"
    using assms(2) delete_cursor [OF assms(1)] mark_leaving_cursor [OF assms(1)]
    by auto
  have raw: "currentIndex s = effectiveIndex s"
    if "effectiveIndex s \<noteq> int (length (displayCards s)) - 1"
    using that cc(2) cc(5) by simp
  have rest: "displayCards s' = take e (displayCards s) @ drop (Suc e) (displayCards s)
      \<and> int (length (displayCards s')) = int (length (displayCards s)) - 1
      \<and> (effectiveIndex s < int (length (displayCards s)) - 1 \<longrightarrow>
            effectiveIndex s' = effectiveIndex s
            \<and> currentCard s' = Some (displayCards s ! nat (effectiveIndex s + 1)))
      \<and> (effectiveIndex s = int (length (displayCards s)) - 1 \<and> 0 < effectiveIndex s \<longrightarrow>
            effectiveIndex s' = effectiveIndex s - 1
            \<and> currentCard s' = Some (displayCards s ! nat (effectiveIndex s - 1)))
      \<and> (length (displayCards s) = 1 \<longrightarrow>
            displayCards s' = [] \<and> effectiveIndex s' = 0 \<and> currentCard s' = None)"
    if d: "distinct (map card_id (cards s))"
  proof -
    have dc': "displayCards s' = take e (displayCards s) @ drop (Suc e) (displayCards s)"
      using assms(2) displayCards_delete [OF assms(1) d]
        displayCards_mark_leaving [OF assms(1) d]
      by (auto simp: e_def)
    have idx: "currentIndex s' =
        (if e = length (displayCards s) - 1 then max 0 (int e - 1) else int e)"
    proof (cases "e = length (displayCards s) - 1")
      case True
      then show ?thesis using basic e by (simp add: of_nat_diff)
    next
      case False
      then have "effectiveIndex s \<noteq> int (length (displayCards s)) - 1"
        using e by auto
      then show ?thesis using basic raw False e by simp
    qed
    note sh = after_shrink [OF e(2) dc' idx]
    have a: "int (length (displayCards s')) = int (length (displayCards s)) - 1"
      using sh(1) e(2) by (simp add: of_nat_diff)
    have b: "effectiveIndex s' = effectiveIndex s
        \<and> currentCard s' = Some (displayCards s ! nat (effectiveIndex s + 1))"
      if "effectiveIndex s < int (length (displayCards s)) - 1"
    proof -
      have "Suc e < length (displayCards s)" using that e by simp
      moreover have "nat (effectiveIndex s + 1) = Suc e" using e by simp
      ultimately show ?thesis using sh(2) e by simp
    qed
    have c: "effectiveIndex s' = effectiveIndex s - 1
        \<and> currentCard s' = Some (displayCards s ! nat (effectiveIndex s - 1))"
      if "effectiveIndex s = int (length (displayCards s)) - 1" "0 < effectiveIndex s"
    proof -
      have "Suc e = length (displayCards s)" "0 < e" using that e by simp_all
      moreover have "nat (effectiveIndex s - 1) = e - 1" using e by simp
      ultimately show ?thesis using sh(3) e by simp
    qed
    show ?thesis
      using dc' a b c sh(4) by blast
  qed
  show ?thesis
    using basic raw rest unfolding e_def by blast
qed


text \<open>
  Deleting the last of three visible cards steps back to the second; marking the second
  of three cards as known under the filter \<^verbatim>\<open>new\<close> leaves the position and shows the
  third.
\<close>

theorem shrink_policy_witness:
  "currentCard exAtC = Some (exCard ''C'' None (Some New))
   \<and> distinct (map card_id (cards exAtC))
   \<and> effectiveIndex exAtC = int (length (displayCards exAtC)) - 1
   \<and> currentIndex (handleDeleteCard True exAtC) = 1
   \<and> isFlipped (handleDeleteCard True exAtC) = False
   \<and> currentCard (handleDeleteCard True exAtC) = Some (exCard ''B'' None (Some New))
   \<and> currentCard exNewAtB = Some (exCard ''B'' None (Some New))
   \<and> \<not> passesFilters (filterMode exNewAtB) (selectedTag exNewAtB)
         (exCard ''B'' None (Some New)\<lparr>proficiency := Some Known\<rparr>)
   \<and> currentIndex (handleMark Known exNewAtB) = 1
   \<and> currentCard (handleMark Known exNewAtB) = Some (exCard ''C'' None (Some New))"
proof -
  have c: "currentCard exAtC = Some (exCard ''C'' None (Some New))"
    and b: "currentCard exNewAtB = Some (exCard ''B'' None (Some New))"
    by (simp_all add: exAtC_def exNewAtB_def handler_defs ex_defs)
  have leaves: "\<not> passesFilters (filterMode exNewAtB) (selectedTag exNewAtB)
         (exCard ''B'' None (Some New)\<lparr>proficiency := Some Known\<rparr>)"
    by (simp add: exNewAtB_def handler_defs ex_defs passesFilters_def passesProficiency_def)
  have facts: "distinct (map card_id (cards exAtC))" "distinct (map card_id (cards exNewAtB))"
    "effectiveIndex exAtC = 2" "effectiveIndex exNewAtB = 1" "currentIndex exNewAtB = 1"
    "displayCards exAtC = exABC" "displayCards exNewAtB = exABC"
    by (simp_all add: exAtC_def exNewAtB_def handler_defs ex_defs)
  have del: "handleDeleteCard True exAtC = handleDeleteCard True exAtC \<or>
      handleDeleteCard True exAtC = handleMark Known exAtC \<and>
      \<not> passesFilters (filterMode exAtC) (selectedTag exAtC)
         (exCard ''C'' None (Some New)\<lparr>proficiency := Some Known\<rparr>)"
    by simp
  have mrk: "handleMark Known exNewAtB = handleDeleteCard True exNewAtB \<or>
      handleMark Known exNewAtB = handleMark Known exNewAtB \<and>
      \<not> passesFilters (filterMode exNewAtB) (selectedTag exNewAtB)
         (exCard ''B'' None (Some New)\<lparr>proficiency := Some Known\<rparr>)"
    using leaves by simp
  show ?thesis
    using shrink_policy [OF c del] shrink_policy [OF b mrk] c b leaves facts
    by (simp add: exABC_def)
qed

text \<open>
  The claim as stated (decrement when the effective position is at or beyond the new
  last valid index) fails: with three new cards under the filter \<^verbatim>\<open>new\<close> and the
  cursor on the second, marking it as known, or deleting it, leaves two visible cards, so
  the position 1 is at the new last valid index 1; the position stays 1 and is not
  decremented to 0.
\<close>

theorem shrink_policy_counterexample:
  "currentCard exNewAtB = Some (exCard ''B'' None (Some New))
   \<and> effectiveIndex exNewAtB = 1
   \<and> displayCards (handleMark Known exNewAtB) =
       [exCard ''A'' None (Some New), exCard ''C'' None (Some New)]
   \<and> int (length (displayCards (handleMark Known exNewAtB))) - 1 \<le> effectiveIndex exNewAtB
   \<and> currentIndex (handleMark Known exNewAtB) = 1
   \<and> currentIndex (handleMark Known exNewAtB) \<noteq> max 0 (effectiveIndex exNewAtB - 1)
   \<and> displayCards (handleDeleteCard True exNewAtB) =
       [exCard ''A'' None (Some New), exCard ''C'' None (Some New)]
   \<and> currentIndex (handleDeleteCard True exNewAtB) = 1
   \<and> currentIndex (handleDeleteCard True exNewAtB) \<noteq> max 0 (effectiveIndex exNewAtB - 1)"
  by (simp add: exNewAtB_def handler_defs ex_defs)

section \<open>Mark when the card stays visible\<close>

text \<open>
  What \<open>handleMark p\<close> does in every state that shows a card. It changes the collection
  in exactly one way: every card with the id of the shown card gets the proficiency
  \<open>p\<close> (all its other fields and every other card stay as they are, in the same
  order); when the ids are pairwise distinct this is the shown card alone. If the marked
  card still passes the active proficiency filter and the active tag filter, the cursor
  does what \<open>handleNext\<close> does: the state is unflipped and the same step is scheduled,
  so that after the step the index is the one \<open>handleNext\<close> leads to. That is one
  position further (modulo the visible length) when the raw index is within the visible
  sequence and nothing else is pending; with distinct ids the visible sequence keeps its
  length, with the marked card in its place. So it is in the scenario of the
  specification: with the collection [A, B, C], all new, the filter \<^verbatim>\<open>all\<close> and the
  cursor on A, marking A as known makes its proficiency known, A stays visible and the
  cursor lands on B.
\<close>

lemma handleMark_effect:
  assumes "currentCard s = Some cur"
  shows "length (cards (handleMark p s)) = length (cards s)
    \<and> (\<forall>i<length (cards s).
          cards (handleMark p s) ! i =
            (if card_id (cards s ! i) = card_id cur
             then (cards s ! i)\<lparr>proficiency := Some p\<rparr> else cards s ! i))
    \<and> (distinct (map card_id (cards s)) \<longrightarrow>
          (\<exists>k<length (cards s). cards s ! k = cur \<and>
             cards (handleMark p s) = (cards s)[k := cur\<lparr>proficiency := Some p\<rparr>]))
    \<and> (passesFilters (filterMode s) (selectedTag s) (cur\<lparr>proficiency := Some p\<rparr>) \<longrightarrow>
          isFlipped (handleMark p s) = False
          \<and> currentIndex (handleMark p s) = currentIndex (handleNext s)
          \<and> timers (handleMark p s) = timers (handleNext s)
          \<and> currentIndex (settle (handleMark p s)) = currentIndex (settle (handleNext s))
          \<and> (timers s = [] \<and> currentIndex s < int (length (displayCards s)) \<longrightarrow>
                currentIndex (settle (handleMark p s)) =
                  (effectiveIndex s + 1) mod int (length (displayCards s)))
          \<and> (distinct (map card_id (cards s)) \<longrightarrow>
                displayCards (handleMark p s) =
                  (displayCards s)[nat (effectiveIndex s) := cur\<lparr>proficiency := Some p\<rparr>]))
    \<and> currentCard exAtA = Some (exCard ''A'' None (Some New))
    \<and> cards (settle (handleMark Known exAtA)) =
        [exCard ''A'' None (Some Known), exCard ''B'' None (Some New),
         exCard ''C'' None (Some New)]
    \<and> displayCards (settle (handleMark Known exAtA)) =
        [exCard ''A'' None (Some Known), exCard ''B'' None (Some New),
         exCard ''C'' None (Some New)]
    \<and> currentCard (settle (handleMark Known exAtA)) = Some (exCard ''B'' None (Some New))"
proof -
  note cc = currentCard_SomeD [OF assms]
  note mc = mark_cards [OF assms, of p]
  have ne: "displayCards s \<noteq> []"
    using cc(1,2) by auto
  have A: "length (cards (handleMark p s)) = length (cards s)"
    by (simp add: mc(1))
  have B: "\<forall>i<length (cards s).
          cards (handleMark p s) ! i =
            (if card_id (cards s ! i) = card_id cur
             then (cards s ! i)\<lparr>proficiency := Some p\<rparr> else cards s ! i)"
    by (simp add: mc(1))
  have C: "\<exists>k<length (cards s). cards s ! k = cur \<and>
             cards (handleMark p s) = (cards s)[k := cur\<lparr>proficiency := Some p\<rparr>]"
    if d: "distinct (map card_id (cards s))"
  proof -
    have "cur \<in> set (cards s)"
      using cc(1,2,3) displayCards_subset [of s] by (auto simp: nth_mem)
    then obtain k where k: "k < length (cards s)" "cards s ! k = cur"
      by (auto simp: in_set_conv_nth)
    have "cards (handleMark p s) = (cards s)[k := cur\<lparr>proficiency := Some p\<rparr>]"
      using mark_as_list_update [OF d k(1), of "\<lambda>c. c\<lparr>proficiency := Some p\<rparr>"] k(2)
      by (simp add: mc(1))
    then show ?thesis using k by blast
  qed
  have D: "isFlipped (handleMark p s) = False
          \<and> currentIndex (handleMark p s) = currentIndex (handleNext s)
          \<and> timers (handleMark p s) = timers (handleNext s)
          \<and> currentIndex (settle (handleMark p s)) = currentIndex (settle (handleNext s))
          \<and> (timers s = [] \<and> currentIndex s < int (length (displayCards s)) \<longrightarrow>
                currentIndex (settle (handleMark p s)) =
                  (effectiveIndex s + 1) mod int (length (displayCards s)))
          \<and> (distinct (map card_id (cards s)) \<longrightarrow>
                displayCards (handleMark p s) =
                  (displayCards s)[nat (effectiveIndex s) := cur\<lparr>proficiency := Some p\<rparr>])"
    if st: "passesFilters (filterMode s) (selectedTag s) (cur\<lparr>proficiency := Some p\<rparr>)"
  proof -
    note ms = mark_staying_cursor [OF assms st]
    note nx = next_cursor [OF ne]
    have step: "currentIndex (settle (handleMark p s)) =
        (effectiveIndex s + 1) mod int (length (displayCards s))"
      if "timers s = []" "currentIndex s < int (length (displayCards s))"
    proof -
      have "effectiveIndex s = currentIndex s"
        using that(2) by (simp add: effectiveIndex_def)
      moreover have "stepIndex Fwd (int (length (displayCards s))) (currentIndex s) =
          (currentIndex s + 1) mod int (length (displayCards s))"
        using that(2) cc(4) by (rule stepIndex_Fwd_in_range [rotated])
      ultimately show ?thesis
        using that(1) by (simp add: settle_simps ms del: stepIndex.simps)
    qed
    show ?thesis
      using ms nx step displayCards_mark_staying [OF assms _ st]
      by (simp add: settle_simps)
  qed
  have E: "currentCard exAtA = Some (exCard ''A'' None (Some New))
    \<and> cards (settle (handleMark Known exAtA)) =
        [exCard ''A'' None (Some Known), exCard ''B'' None (Some New),
         exCard ''C'' None (Some New)]
    \<and> displayCards (settle (handleMark Known exAtA)) =
        [exCard ''A'' None (Some Known), exCard ''B'' None (Some New),
         exCard ''C'' None (Some New)]
    \<and> currentCard (settle (handleMark Known exAtA)) = Some (exCard ''B'' None (Some New))"
    by (simp add: exAtA_def handler_defs ex_defs)
  show ?thesis
    using A B C D E by blast
qed

text \<open>
  Claim C3 (the code at the failing input). In the session \<open>exStale\<close> two cards are
  visible, the raw index is 2 and the second card, B, is shown at the effective index 1.
  Marking B as known keeps it visible: the proficiency filter is \<^verbatim>\<open>all\<close> and B
  carries the selected tag. Its proficiency becomes known and no other card changes, and
  the state is unflipped. \<open>handleMark\<close> then calls \<open>handleNext\<close>, whose updater takes
  0 as the base of the step for a raw index that is not below the visible length: after
  the step the index is 1 and B is still shown, where advancing one position from the
  shown card leads to index 0 and card A.
\<close>

theorem mark_from_stale_index:
  "currentCard exStale = Some (exCard ''B'' (Some [''t'']) (Some New))
   \<and> currentIndex exStale = 2
   \<and> effectiveIndex exStale = 1
   \<and> passesFilters (filterMode exStale) (selectedTag exStale)
        (exCard ''B'' (Some [''t'']) (Some Known))
   \<and> cards (handleMark Known exStale) =
       [exCard ''A'' (Some [''t'']) (Some New), exCard ''B'' (Some [''t'']) (Some Known),
        exCard ''C'' None (Some New)]
   \<and> displayCards (handleMark Known exStale) =
       [exCard ''A'' (Some [''t'']) (Some New), exCard ''B'' (Some [''t'']) (Some Known)]
   \<and> isFlipped (settle (handleMark Known exStale)) = False
   \<and> currentIndex (settle (handleMark Known exStale)) = 1
   \<and> currentCard (settle (handleMark Known exStale)) =
       Some (exCard ''B'' (Some [''t'']) (Some Known))
   \<and> (effectiveIndex exStale + 1) mod int (length (displayCards exStale)) = 0
   \<and> displayCards (settle (handleMark Known exStale)) ! 0 =
       exCard ''A'' (Some [''t'']) (Some New)"
  by (simp add: exStale_def handler_defs ex_defs passesFilters_def passesProficiency_def
      passesTag_def)

section \<open>Stepping from a stale raw index\<close>

text \<open>
  Claim C4 (the code at the failing input). In the session \<open>exStale\<close> three cards carry
  the tag that is selected, the cursor has been stepped to the third, and that card is
  then edited so that it loses the tag. Two cards are visible, the raw index is still 2,
  the effective index is 1 and the second card is shown. The updaters take 0 as the base
  of the step because the raw index is not below the length, not the effective index 1:
  after \<open>handleNext\<close> the index is 1 and the same card is shown, where one step from
  the effective index leads to 0; after \<open>handlePrev\<close> the index is 1 as well, where
  one step back from the effective index leads to 0.
\<close>

theorem next_from_stale_index:
  "displayCards exStale = [exCard ''A'' (Some [''t'']) (Some New), exCard ''B'' (Some [''t'']) (Some New)]
   \<and> currentIndex exStale = 2
   \<and> timers exStale = []
   \<and> effectiveIndex exStale = 1
   \<and> currentCard exStale = Some (exCard ''B'' (Some [''t'']) (Some New))
   \<and> currentIndex (settle (handleNext exStale)) = 1
   \<and> currentCard (settle (handleNext exStale)) = Some (exCard ''B'' (Some [''t'']) (Some New))
   \<and> (effectiveIndex exStale + 1) mod int (length (displayCards exStale)) = 0
   \<and> currentIndex (settle (handlePrev exStale)) = 1
   \<and> currentCard (settle (handlePrev exStale)) = Some (exCard ''B'' (Some [''t'']) (Some New))
   \<and> (effectiveIndex exStale - 1) mod int (length (displayCards exStale)) = 0"
  by (simp add: exStale_def handler_defs ex_defs)

section \<open>Normalisation of an import\<close>

text \<open>
  Claim C6 (amended). For every valid import (the text parses to an array whose elements
  all have a non-empty question and answer) and a generator of non-empty ids,
  \<open>parseAndValidate\<close> returns a collection with one card per element, in order. Every
  card has a non-empty id: the one the element brought along, or a generated one when
  that was missing or empty. Every card has a defined proficiency: the one given, or
  \<^verbatim>\<open>new\<close> when it was missing. The tags are absent or a sequence: a non-empty
  sequence of the import is kept, and tags that are no sequence become absent. All
  other fields are kept. The ids are pairwise distinct provided the ids the import
  brings along are pairwise distinct and the generated ids are fresh (pairwise distinct
  and different from the ids brought along).
\<close>

theorem import_normalization:
  assumes "JSON_parse src = Some (JArr items)"
    and "\<forall>item \<in> set items. \<not> lacks ''question'' item \<and> \<not> lacks ''answer'' item"
    and "\<forall>k. generateId k \<noteq> []"
  shows "\<exists>out. parseAndValidate JSON_parse generateId src = Inr out
    \<and> length out = length items
    \<and> (\<forall>i<length items.
          (\<exists>idv. idOf (out ! i) = Some idv \<and> truthy idv \<and>
             (case truthyValue (getProp (items ! i) ''id'') of
                Some v \<Rightarrow> idv = v
              | None \<Rightarrow> \<exists>k. idv = JStr (generateId k)))
          \<and> (\<exists>pv. getProp (out ! i) ''proficiency'' = Some pv \<and> truthy pv \<and>
                (case truthyValue (getProp (items ! i) ''proficiency'') of
                   Some v \<Rightarrow> pv = v
                 | None \<Rightarrow> pv = JStr ''new''))
          \<and> (getProp (out ! i) ''tags'' = None \<or>
               (\<exists>ts. getProp (out ! i) ''tags'' = Some (JArr ts)))
          \<and> (\<forall>ts. getProp (items ! i) ''tags'' = Some (JArr ts) \<and> ts \<noteq> [] \<longrightarrow>
                getProp (out ! i) ''tags'' = Some (JArr ts))
          \<and> ((\<forall>ts. getProp (items ! i) ''tags'' \<noteq> Some (JArr ts)) \<longrightarrow>
                getProp (out ! i) ''tags'' = None)
          \<and> (\<forall>f. f \<noteq> ''id'' \<and> f \<noteq> ''proficiency'' \<and> f \<noteq> ''tags'' \<longrightarrow>
                getProp (out ! i) f = getProp (items ! i) f))
    \<and> (distinct (suppliedIds items) \<and> inj generateId \<and>
        (\<forall>k. JStr (generateId k) \<notin> set (suppliedIds items)) \<longrightarrow>
          distinct (map idOf out))"
proof -
  let ?out = "normalizeItems generateId 0 items"
  have "every items = Inr True"
    using assms(2) by (simp add: every_True_iff)
  then have res: "parseAndValidate JSON_parse generateId src = Inr ?out"
    using assms(1) by (simp add: parseAndValidate_def)
  have len: "length ?out = length items"
    by (rule length_normalizeItems)
  have each: "(\<exists>idv. idOf (?out ! i) = Some idv \<and> truthy idv \<and>
             (case truthyValue (getProp (items ! i) ''id'') of
                Some v \<Rightarrow> idv = v
              | None \<Rightarrow> \<exists>k. idv = JStr (generateId k)))
          \<and> (\<exists>pv. getProp (?out ! i) ''proficiency'' = Some pv \<and> truthy pv \<and>
                (case truthyValue (getProp (items ! i) ''proficiency'') of
                   Some v \<Rightarrow> pv = v
                 | None \<Rightarrow> pv = JStr ''new''))
          \<and> (getProp (?out ! i) ''tags'' = None \<or>
               (\<exists>ts. getProp (?out ! i) ''tags'' = Some (JArr ts)))
          \<and> (\<forall>ts. getProp (items ! i) ''tags'' = Some (JArr ts) \<and> ts \<noteq> [] \<longrightarrow>
                getProp (?out ! i) ''tags'' = Some (JArr ts))
          \<and> ((\<forall>ts. getProp (items ! i) ''tags'' \<noteq> Some (JArr ts)) \<longrightarrow>
                getProp (?out ! i) ''tags'' = None)
          \<and> (\<forall>f. f \<noteq> ''id'' \<and> f \<noteq> ''proficiency'' \<and> f \<noteq> ''tags'' \<longrightarrow>
                getProp (?out ! i) f = getProp (items ! i) f)"
    if i: "i < length items" for i
  proof -
    obtain idv where o: "?out ! i = normalizeItem idv (items ! i)"
      and idv: "case truthyValue (getProp (items ! i) ''id'') of
          Some v \<Rightarrow> idv = v | None \<Rightarrow> \<exists>j\<ge>0. idv = JStr (generateId j)"
      using normalizeItems_nth [OF i, of generateId 0] by blast
    have t: "truthy idv"
    proof (cases "truthyValue (getProp (items ! i) ''id'')")
      case None
      then show ?thesis using idv assms(3) by auto
    next
      case (Some v)
      then show ?thesis
        using idv by (auto simp: truthyValue_def split: option.splits if_splits)
    qed
    have p1: "idOf (?out ! i) = Some idv \<and> truthy idv \<and>
             (case truthyValue (getProp (items ! i) ''id'') of
                Some v \<Rightarrow> idv = v
              | None \<Rightarrow> \<exists>k. idv = JStr (generateId k))"
      using idv t by (auto simp: o idOf_normalizeItem split: option.splits)
    let ?pv = "case truthyValue (getProp (items ! i) ''proficiency'') of
        Some v \<Rightarrow> v | None \<Rightarrow> JStr ''new''"
    have p2: "getProp (?out ! i) ''proficiency'' = Some ?pv \<and> truthy ?pv \<and>
                (case truthyValue (getProp (items ! i) ''proficiency'') of
                   Some v \<Rightarrow> ?pv = v
                 | None \<Rightarrow> ?pv = JStr ''new'')"
      by (auto simp: o normalizeItem_proficiency truthyValue_def split: option.splits if_splits)
    have p3: "(getProp (?out ! i) ''tags'' = None \<or>
               (\<exists>ts. getProp (?out ! i) ''tags'' = Some (JArr ts)))
          \<and> (\<forall>ts. getProp (items ! i) ''tags'' = Some (JArr ts) \<and> ts \<noteq> [] \<longrightarrow>
                getProp (?out ! i) ''tags'' = Some (JArr ts))
          \<and> ((\<forall>ts. getProp (items ! i) ''tags'' \<noteq> Some (JArr ts)) \<longrightarrow>
                getProp (?out ! i) ''tags'' = None)"
      by (auto simp: o normalizeItem_tags split: option.splits json.splits)
    have p4: "\<forall>f. f \<noteq> ''id'' \<and> f \<noteq> ''proficiency'' \<and> f \<noteq> ''tags'' \<longrightarrow>
                getProp (?out ! i) f = getProp (items ! i) f"
      by (simp add: o normalizeItem_other del: getProp.simps)
    show ?thesis
      using p1 p2 p3 p4 by blast
  qed
  have dist: "distinct (map idOf ?out)"
    if "distinct (suppliedIds items) \<and> inj generateId \<and>
        (\<forall>k. JStr (generateId k) \<notin> set (suppliedIds items))"
    using that distinct_idOf_normalizeItems [of items generateId 0] by blast
  show ?thesis
    using res len each dist by blast
qed

text \<open>
  An import of two cards, the first without id, proficiency and with one tag, the
  second with an id, a proficiency and tags that are no sequence.
\<close>

theorem import_normalization_witness:
  "exParse ''import'' = Some (JArr exImportItems)
   \<and> list_all (\<lambda>item. \<not> lacks ''question'' item \<and> \<not> lacks ''answer'' item) exImportItems
   \<and> exGen 0 \<noteq> []
   \<and> suppliedIds exImportItems = [JStr ''k2'']
   \<and> inj exGen
   \<and> parseAndValidate exParse exGen ''import'' =
       Inr [JObj [(''question'', JStr ''q1''), (''answer'', JStr ''a1''),
                  (''tags'', JArr [JStr ''t'']), (''id'', JStr ''uuid-''),
                  (''proficiency'', JStr ''new'')],
            JObj [(''id'', JStr ''k2''), (''question'', JStr ''q2''), (''answer'', JStr ''a2''),
                  (''proficiency'', JStr ''known'')]]
   \<and> distinct (map idOf (normalizeItems exGen 0 exImportItems))"
proof -
  have p: "exParse ''import'' = Some (JArr exImportItems)"
    by (simp add: exParse_def)
  have v: "\<forall>item \<in> set exImportItems. \<not> lacks ''question'' item \<and> \<not> lacks ''answer'' item"
    by (simp add: exImportItems_def lacks_def)
  have sup: "suppliedIds exImportItems = [JStr ''k2'']"
    by (simp add: exImportItems_def suppliedIds_def map_filter_simps truthyValue_def)
  have fresh: "\<forall>k. JStr (exGen k) \<notin> set (suppliedIds exImportItems)"
    by (simp add: sup exGen_def)
  have res: "parseAndValidate exParse exGen ''import'' = Inr (normalizeItems exGen 0 exImportItems)"
  proof -
    have "every exImportItems = Inr True"
      using v by (simp only: every_True_iff)
    then show ?thesis
      using p by (simp add: parseAndValidate_def)
  qed
  have val: "normalizeItems exGen 0 exImportItems =
      [JObj [(''question'', JStr ''q1''), (''answer'', JStr ''a1''),
                  (''tags'', JArr [JStr ''t'']), (''id'', JStr ''uuid-''),
                  (''proficiency'', JStr ''new'')],
            JObj [(''id'', JStr ''k2''), (''question'', JStr ''q2''), (''answer'', JStr ''a2''),
                  (''proficiency'', JStr ''known'')]]"
    by (simp add: exImportItems_def normalizeItem_def truthyValue_def delProp_def exGen_def)
  obtain out where out: "parseAndValidate exParse exGen ''import'' = Inr out"
    "distinct (suppliedIds exImportItems) \<and> inj exGen \<and>
        (\<forall>k. JStr (exGen k) \<notin> set (suppliedIds exImportItems)) \<longrightarrow>
          distinct (map idOf out)"
    using import_normalization
        [where JSON_parse = exParse and src = "''import''", OF p v exGen_facts(1)]
    by (elim exE conjE)
  then have "distinct (map idOf (normalizeItems exGen 0 exImportItems))"
    using res sup fresh exGen_facts(2) by simp
  then show ?thesis
    using p v sup exGen_facts res val by (simp add: list_all_iff)
qed

text \<open>
  The claim as stated (unique ids, tags never an empty sequence) fails: an import of two
  valid cards that bring the same id along, the first with an empty array of tags, is
  accepted; both cards keep the id, and the first keeps its empty array of tags.
\<close>

theorem import_normalization_counterexample:
  "exParse ''duplicate'' = Some (JArr exDuplicateItems)
   \<and> list_all (\<lambda>item. \<not> lacks ''question'' item \<and> \<not> lacks ''answer'' item)
        exDuplicateItems
   \<and> parseAndValidate exParse exGen ''duplicate'' =
       Inr [JObj [(''id'', JStr ''k1''), (''question'', JStr ''q1''), (''answer'', JStr ''a1''),
                  (''tags'', JArr []), (''proficiency'', JStr ''new'')],
            JObj [(''id'', JStr ''k1''), (''question'', JStr ''q2''), (''answer'', JStr ''a2''),
                  (''proficiency'', JStr ''new'')]]
   \<and> \<not> distinct (map idOf (normalizeItems exGen 0 exDuplicateItems))
   \<and> getProp (normalizeItems exGen 0 exDuplicateItems ! 0) ''tags'' = Some (JArr [])"
  by (simp add: exParse_def exDuplicateItems_def parseAndValidate_def truthyProp_def
      truthyValue_def lacks_def normalizeItem_def delProp_def idOf_def)

section \<open>Validation is all or nothing\<close>

text \<open>
  Claim C7. \<open>parseAndValidate\<close> throws if and only if the input is no sequence (the
  text does not parse, or parses to something that is not an array) or some element
  lacks a question or an answer. When it throws, \<open>handleSave\<close> and
  \<open>handleAppendSubmit\<close> do not call their callback: the state of the owner of the
  collection (for the App: the collection, the cursor and the store) is returned as it was,
  and the thrown error is put into the error field of the Editor at once. What is thrown is the
  engine's syntax error for a text that does not parse, the message
  \<^verbatim>\<open>Data must be an array\<close> for a value that is not an array, the message
  \<^verbatim>\<open>Each card must have a question and answer.\<close> for an array without
  \<^verbatim>\<open>null\<close> elements in which an element lacks one of the two, and otherwise one of
  these or the engine's type error for reading a property of \<^verbatim>\<open>null\<close>.
\<close>

theorem validation_all_or_nothing:
  "(isl (parseAndValidate JSON_parse generateId src) \<longleftrightarrow>
      notSequence (JSON_parse src) \<or>
      (\<exists>item \<in> set (cardsOf (JSON_parse src)).
         lacks ''question'' item \<or> lacks ''answer'' item))
   \<and> (parseAndValidate JSON_parse generateId (jsonText ed) = Inl e \<longrightarrow>
         handleSave JSON_parse generateId onSave (app, ed) =
           (app, ed\<lparr>error := Some e, successMsg := None\<rparr>))
   \<and> (parseAndValidate JSON_parse generateId (appendText ed) = Inl e \<longrightarrow>
         handleAppendSubmit JSON_parse generateId onAppend (app, ed) =
           (app, ed\<lparr>appendError := Some e\<rparr>))
   \<and> (parseAndValidate JSON_parse generateId src = Inl e \<longrightarrow>
         e = SyntaxError \<or> e = TypeError \<or> e = Error ''Data must be an array'' \<or>
         e = Error ''Each card must have a question and answer.'')
   \<and> (JSON_parse src = None \<longrightarrow> parseAndValidate JSON_parse generateId src = Inl SyntaxError)
   \<and> (JSON_parse src \<noteq> None \<and> notSequence (JSON_parse src) \<longrightarrow>
         parseAndValidate JSON_parse generateId src = Inl (Error ''Data must be an array''))
   \<and> (\<not> notSequence (JSON_parse src) \<and> JNull \<notin> set (cardsOf (JSON_parse src)) \<and>
        (\<exists>item \<in> set (cardsOf (JSON_parse src)).
           lacks ''question'' item \<or> lacks ''answer'' item) \<longrightarrow>
         parseAndValidate JSON_parse generateId src =
           Inl (Error ''Each card must have a question and answer.''))"
proof -
  have ok: "(\<exists>out. parseAndValidate JSON_parse generateId src = Inr out) \<longleftrightarrow>
      \<not> notSequence (JSON_parse src) \<and>
      (\<forall>item \<in> set (cardsOf (JSON_parse src)).
         \<not> lacks ''question'' item \<and> \<not> lacks ''answer'' item)"
    by (simp add: parseAndValidate_ok_iff every_True_iff)
  have A: "isl (parseAndValidate JSON_parse generateId src) \<longleftrightarrow>
      notSequence (JSON_parse src) \<or>
      (\<exists>item \<in> set (cardsOf (JSON_parse src)).
         lacks ''question'' item \<or> lacks ''answer'' item)"
    using ok by (cases "parseAndValidate JSON_parse generateId src") auto
  have B: "handleSave JSON_parse generateId onSave (app, ed) =
           (app, ed\<lparr>error := Some e, successMsg := None\<rparr>)"
    if "parseAndValidate JSON_parse generateId (jsonText ed) = Inl e"
    using that by (simp add: handleSave_def)
  have C: "handleAppendSubmit JSON_parse generateId onAppend (app, ed) =
           (app, ed\<lparr>appendError := Some e\<rparr>)"
    if "parseAndValidate JSON_parse generateId (appendText ed) = Inl e"
    using that by (simp add: handleAppendSubmit_def)
  have D: "e = SyntaxError \<or> e = TypeError \<or> e = Error ''Data must be an array'' \<or>
         e = Error ''Each card must have a question and answer.''"
    if "parseAndValidate JSON_parse generateId src = Inl e"
    using that
    by (auto simp: parseAndValidate_def dest: every_Inl
        split: option.splits json.splits sum.splits if_splits)
  have E: "parseAndValidate JSON_parse generateId src = Inl SyntaxError"
    if "JSON_parse src = None"
    using that by (simp add: parseAndValidate_def)
  have F: "parseAndValidate JSON_parse generateId src = Inl (Error ''Data must be an array'')"
    if "JSON_parse src \<noteq> None \<and> notSequence (JSON_parse src)"
    using that
    by (auto simp: parseAndValidate_def notSequence_def split: option.splits json.splits)
  have G: "parseAndValidate JSON_parse generateId src =
           Inl (Error ''Each card must have a question and answer.'')"
    if g: "\<not> notSequence (JSON_parse src) \<and> JNull \<notin> set (cardsOf (JSON_parse src)) \<and>
        (\<exists>item \<in> set (cardsOf (JSON_parse src)).
           lacks ''question'' item \<or> lacks ''answer'' item)"
  proof -
    obtain items where items: "JSON_parse src = Some (JArr items)"
      using g by (auto simp: notSequence_def split: option.splits json.splits)
    then have c: "cardsOf (JSON_parse src) = items"
      by (simp add: cardsOf_def)
    obtain b where b: "every items = Inr b"
      using every_no_null [of items] g c by auto
    have "every items \<noteq> Inr True"
      using g c by (auto simp: every_True_iff)
    then have "\<not> b" using b by simp
    then show ?thesis
      using items b by (simp add: parseAndValidate_def)
  qed
  show ?thesis
    using A B C D E F G by blast
qed

text \<open>
  The Editor holds the text \<^verbatim>\<open>[{}]\<close> for a replace and \<^verbatim>\<open>{}\<close> for an append while
  the App is in a session with a saved collection: both submissions fail and leave the
  App as it is.
\<close>

theorem validation_all_or_nothing_witness:
  "parseAndValidate exParse exGen (jsonText exEditor) =
     Inl (Error ''Each card must have a question and answer.'')
   \<and> lacks ''question'' (JObj [])
   \<and> (\<forall>asCard. handleSave exParse exGen (onSaveApp asCard) (exSaved, exEditor) =
       (exSaved,
        exEditor\<lparr>error := Some (Error ''Each card must have a question and answer.''),
                 successMsg := None\<rparr>))
   \<and> parseAndValidate exParse exGen (appendText exEditor) =
       Inl (Error ''Data must be an array'')
   \<and> (\<forall>asCard. handleAppendSubmit exParse exGen (onAppendApp asCard) (exSaved, exEditor) =
       (exSaved, exEditor\<lparr>appendError := Some (Error ''Data must be an array'')\<rparr>))
   \<and> isl (parseAndValidate exParse exGen ''[null]'')
   \<and> isl (parseAndValidate exParse exGen ''not json'')
   \<and> \<not> isl (parseAndValidate exParse exGen ''import'')"
proof -
  have a: "parseAndValidate exParse exGen (jsonText exEditor) =
      Inl (Error ''Each card must have a question and answer.'')"
    by (simp add: parseAndValidate_def exParse_def exEditor_def truthyProp_def truthyValue_def)
  have b: "parseAndValidate exParse exGen (appendText exEditor) =
      Inl (Error ''Data must be an array'')"
    by (simp add: parseAndValidate_def exParse_def exEditor_def)
  have c: "notSequence (exParse ''not json'')"
    "\<not> notSequence (exParse ''[null]'')" "cardsOf (exParse ''[null]'') = [JNull]"
    "lacks ''question'' JNull" "lacks ''question'' (JObj [])"
    "\<not> notSequence (exParse ''import'')"
    "\<forall>item \<in> set (cardsOf (exParse ''import'')).
       \<not> lacks ''question'' item \<and> \<not> lacks ''answer'' item"
    by (simp_all add: exParse_def exImportItems_def notSequence_def cardsOf_def lacks_def)
  have save: "handleSave exParse exGen (onSaveApp asCard) (exSaved, exEditor) =
       (exSaved,
        exEditor\<lparr>error := Some (Error ''Each card must have a question and answer.''),
                 successMsg := None\<rparr>)
      \<and> isl (parseAndValidate exParse exGen ''[null]'')" for asCard
    using validation_all_or_nothing
        [where JSON_parse = exParse and generateId = exGen and src = "''[null]''"
           and ed = exEditor and e = "Error ''Each card must have a question and answer.''"
           and onSave = "onSaveApp asCard" and app = exSaved
           and onAppend = "onAppendApp asCard"]
      a c
    by simp
  have append: "handleAppendSubmit exParse exGen (onAppendApp asCard) (exSaved, exEditor) =
       (exSaved, exEditor\<lparr>appendError := Some (Error ''Data must be an array'')\<rparr>)
      \<and> isl (parseAndValidate exParse exGen ''not json'')" for asCard
    using validation_all_or_nothing
        [where JSON_parse = exParse and generateId = exGen and src = "''not json''"
           and ed = exEditor and e = "Error ''Data must be an array''"
           and onSave = "onSaveApp asCard" and app = exSaved
           and onAppend = "onAppendApp asCard"]
      b c
    by simp
  have valid: "\<not> isl (parseAndValidate exParse exGen ''import'')"
    using validation_all_or_nothing
        [where JSON_parse = exParse and generateId = exGen and src = "''import''"
           and ed = exEditor and e = TypeError
           and onSave = "onSaveApp (\<lambda>obj. exCard [] None None)" and app = exSaved
           and onAppend = "onAppendApp (\<lambda>obj. exCard [] None None)"]
      c
    by simp
  show ?thesis
    using a b c save append valid by simp
qed

section \<open>Shuffle\<close>

text \<open>
  Claim C8 (amended). For every collection and every sequence of outcomes of the random
  comparator, \<open>handleShuffle\<close> leaves a permutation of the collection: the same cards
  with the same multiplicities (so the same ids, none lost or duplicated, every field
  unchanged), in some order; it sets the cursor position to 0 and unflips, and changes
  neither the filters nor the pending steps. Nothing is claimed of the distribution of
  the order.
\<close>

theorem shuffle_permutation:
  "mset (cards (handleShuffle merged rnd s)) = mset (cards s)
   \<and> mset (map card_id (cards (handleShuffle merged rnd s))) = mset (map card_id (cards s))
   \<and> set (cards (handleShuffle merged rnd s)) = set (cards s)
   \<and> length (cards (handleShuffle merged rnd s)) = length (cards s)
   \<and> distinct (map card_id (cards (handleShuffle merged rnd s))) = distinct (map card_id (cards s))
   \<and> currentIndex (handleShuffle merged rnd s) = 0
   \<and> isFlipped (handleShuffle merged rnd s) = False
   \<and> filterMode (handleShuffle merged rnd s) = filterMode s
   \<and> selectedTag (handleShuffle merged rnd s) = selectedTag s
   \<and> timers (handleShuffle merged rnd s) = timers s"
proof -
  have m: "mset (cards (handleShuffle merged rnd s)) = mset (cards s)"
    by (simp add: handleShuffle_def mset_sortRandom)
  then have ids: "mset (map card_id (cards (handleShuffle merged rnd s))) = mset (map card_id (cards s))"
    by (metis mset_map)
  have "set (cards (handleShuffle merged rnd s)) = set (cards s)"
    using m by (rule mset_eq_setD)
  moreover have "length (cards (handleShuffle merged rnd s)) = length (cards s)"
    using m by (rule mset_eq_length)
  moreover have "distinct (map card_id (cards (handleShuffle merged rnd s))) =
      distinct (map card_id (cards s))"
    using ids by (metis distinct_count_atmost_1 set_mset_mset)
  ultimately show ?thesis
    using m ids by (simp add: handleShuffle_def)
qed

text \<open>
  The claim as stated (a uniform random permutation) fails for a collection of three
  cards. Shuffling it consults the comparator at most four times; of the 16 equally
  likely sequences of four outcomes, six leave the order A, B, C, five give the order
  C, B, A and one gives the order A, C, B: the probabilities are 3/8, 5/16 and 1/16,
  where a uniform choice gives 1/6 to each of the six orders.
\<close>

theorem shuffle_not_uniform:
  "length (coins 4) = 16
   \<and> length (filter (\<lambda>bs. cards (handleShuffle [] (outcomes bs) exAtA) = exABC) (coins 4)) = 6
   \<and> length (filter (\<lambda>bs. cards (handleShuffle [] (outcomes bs) exAtA) = rev exABC)
        (coins 4)) = 5
   \<and> length
        (filter
           (\<lambda>bs. cards (handleShuffle [] (outcomes bs) exAtA) =
              [exCard ''A'' None (Some New), exCard ''C'' None (Some New),
               exCard ''B'' None (Some New)])
           (coins 4)) = 1"
  by (simp add: exAtA_def mount_def loadCards_def handleShuffle_def sortRandom_def
      sortOneRun_def countRun.simps binarySearch.simps Let_def outcomes_def
      numeral_2_eq_2 numeral_3_eq_3 eval_nat_numeral ex_defs)

section \<open>Reset\<close>

text \<open>
  Claim C9 (amended). A confirmed reset discards the persisted entry and installs as the
  in-memory collection what \<open>resetData\<close> returns: the seed of the build, which is the
  constant \<^verbatim>\<open>INITIAL_DATA\<close> in one variant of storage.ts and the empty list in the
  other. Nothing is written back: the store holds no entry afterwards, and a later load
  of the empty store falls back to the same seed. The cursor is set to 0, the card is
  unflipped and both filters are cleared. A reset that is not confirmed changes nothing.
\<close>

theorem reset_postcondition:
  "stored (storage (handleReset True (resetData INITIAL_DATA) s)) = None
   \<and> accepts (storage (handleReset True (resetData INITIAL_DATA) s)) = accepts (storage s)
   \<and> cards (handleReset True (resetData INITIAL_DATA) s) = INITIAL_DATA
   \<and> loadCards INITIAL_DATA (storage (handleReset True (resetData INITIAL_DATA) s)) =
       INITIAL_DATA
   \<and> currentIndex (handleReset True (resetData INITIAL_DATA) s) = 0
   \<and> isFlipped (handleReset True (resetData INITIAL_DATA) s) = False
   \<and> filterMode (handleReset True (resetData INITIAL_DATA) s) = FAll
   \<and> selectedTag (handleReset True (resetData INITIAL_DATA) s) = []
   \<and> stored (storage (handleReset True resetData0 s)) = None
   \<and> cards (handleReset True resetData0 s) = []
   \<and> loadCards0 (storage (handleReset True resetData0 s)) = []
   \<and> currentIndex (handleReset True resetData0 s) = 0
   \<and> isFlipped (handleReset True resetData0 s) = False
   \<and> filterMode (handleReset True resetData0 s) = FAll
   \<and> selectedTag (handleReset True resetData0 s) = []
   \<and> handleReset False reset s = s"
  by (simp add: handleReset_def resetData_def resetData0_def loadCards_def loadCards0_def)

text \<open>
  The claim as stated (the seed is non-empty and becomes the persisted baseline) fails.
  After a mark has written three cards to the store, a reset with the first variant of
  \<open>resetData\<close> installs the empty collection; with either variant the store holds no
  entry afterwards, so the seed is not what is persisted.
\<close>

theorem reset_counterexample:
  "stored (storage exSaved) =
     Some [exCard ''A'' None (Some Known), exCard ''B'' None (Some New),
           exCard ''C'' None (Some New)]
   \<and> cards (handleReset True resetData0 exSaved) = []
   \<and> stored (storage (handleReset True resetData0 exSaved)) = None
   \<and> cards (handleReset True (resetData exABC) exSaved) = exABC
   \<and> stored (storage (handleReset True (resetData exABC) exSaved)) \<noteq> Some exABC"
  by (simp add: exSaved_def exAtA_def handler_defs ex_defs)

section \<open>Shuffle and the store\<close>

text \<open>
  Claim C10. \<open>handleShuffle\<close> never writes: the store after a shuffle is the store
  before it, for every collection. Neither do the handlers that only move the cursor or
  change the view (next, previous, a pending step, flip, the filters, the mode, opening
  the edit form). The order reaches the store through the handlers that save: after a
  shuffle, an edit, an append, a mark or a confirmed delete of the shown card hands the
  collection it has built from the shuffled order to \<open>saveCards\<close>, and a replace hands
  over the new data; \<open>saveCards\<close> stores what it is given when the medium accepts it
  and leaves the entry alone otherwise.
\<close>

theorem shuffle_not_persisted:
  "storage (handleShuffle merged rnd s) = storage s
   \<and> storage (handleNext s) = storage s
   \<and> storage (handlePrev s) = storage s
   \<and> storage (tick s) = storage s
   \<and> storage (flip s) = storage s
   \<and> storage (setFilterMode fm s) = storage s
   \<and> storage (setSelectedTag t s) = storage s
   \<and> storage (setMode m s) = storage s
   \<and> storage (handleEditCard s) = storage s
   \<and> storage (handleUpdateCard c (handleShuffle merged rnd s)) =
       saveCards (cards (handleUpdateCard c (handleShuffle merged rnd s))) (storage s)
   \<and> cards (handleUpdateCard c (handleShuffle merged rnd s)) =
       map (\<lambda>x. if card_id x = card_id c then c else x) (sortRandom merged rnd (cards s))
   \<and> storage (handleAppendData cs (handleShuffle merged rnd s)) =
       saveCards (sortRandom merged rnd (cards s) @ cs) (storage s)
   \<and> storage (handleSaveData cs (handleShuffle merged rnd s)) = saveCards cs (storage s)
   \<and> (currentCard (handleShuffle merged rnd s) = Some cur \<longrightarrow>
         storage (handleMark p (handleShuffle merged rnd s)) =
           saveCards
             (map (\<lambda>x. if card_id x = card_id cur then x\<lparr>proficiency := Some p\<rparr> else x)
                (sortRandom merged rnd (cards s)))
             (storage s)
         \<and> storage (handleDeleteCard True (handleShuffle merged rnd s)) =
           saveCards (filter (\<lambda>x. card_id x \<noteq> card_id cur) (sortRandom merged rnd (cards s)))
             (storage s))
   \<and> (accepts st new \<longrightarrow> stored (saveCards new st) = Some new)
   \<and> (\<not> accepts st new \<longrightarrow> stored (saveCards new st) = stored st)"
proof -
  have frame: "storage (handleShuffle merged rnd s) = storage s
   \<and> storage (handleNext s) = storage s
   \<and> storage (handlePrev s) = storage s
   \<and> storage (tick s) = storage s
   \<and> storage (flip s) = storage s
   \<and> storage (setFilterMode fm s) = storage s
   \<and> storage (setSelectedTag t s) = storage s
   \<and> storage (setMode m s) = storage s
   \<and> storage (handleEditCard s) = storage s"
    by (simp add: handleShuffle_def handleNext_def handlePrev_def scheduleStep_def tick_def
        flip_def setFilterMode_def setSelectedTag_def setMode_def handleEditCard_def
        split: list.splits option.splits)
  have saving: "storage (handleUpdateCard c (handleShuffle merged rnd s)) =
       saveCards (cards (handleUpdateCard c (handleShuffle merged rnd s))) (storage s)
   \<and> cards (handleUpdateCard c (handleShuffle merged rnd s)) =
       map (\<lambda>x. if card_id x = card_id c then c else x) (sortRandom merged rnd (cards s))
   \<and> storage (handleAppendData cs (handleShuffle merged rnd s)) =
       saveCards (sortRandom merged rnd (cards s) @ cs) (storage s)
   \<and> storage (handleSaveData cs (handleShuffle merged rnd s)) = saveCards cs (storage s)"
    by (simp add: handleUpdateCard_def handleAppendData_def handleSaveData_def
        handleShuffle_def Let_def)
  have cur: "storage (handleMark p (handleShuffle merged rnd s)) =
           saveCards
             (map (\<lambda>x. if card_id x = card_id cur then x\<lparr>proficiency := Some p\<rparr> else x)
                (sortRandom merged rnd (cards s)))
             (storage s)
         \<and> storage (handleDeleteCard True (handleShuffle merged rnd s)) =
           saveCards (filter (\<lambda>x. card_id x \<noteq> card_id cur) (sortRandom merged rnd (cards s)))
             (storage s)"
    if c: "currentCard (handleShuffle merged rnd s) = Some cur"
  proof -
    have "storage (handleMark p (handleShuffle merged rnd s)) =
        saveCards (cards (handleMark p (handleShuffle merged rnd s))) (storage (handleShuffle merged rnd s))"
      by (rule mark_cards(2) [OF c])
    moreover have "storage (handleDeleteCard True (handleShuffle merged rnd s)) =
        saveCards (filter (\<lambda>x. card_id x \<noteq> card_id cur) (cards (handleShuffle merged rnd s)))
          (storage (handleShuffle merged rnd s))"
      using c by (simp add: handleDeleteCard_def Let_def)
    ultimately show ?thesis
      using mark_cards(1) [OF c, of p] by (simp add: handleShuffle_def)
  qed
  show ?thesis
    using frame saving cur by (simp add: storage_saveCards)
qed

text \<open>
  After a first mark has saved [A, B, C], a shuffle whose comparator is always negative
  reverses the collection in memory while the store still holds [A, B, C]; the mark
  that follows writes the reversed collection.
\<close>

theorem shuffle_not_persisted_witness:
  "cards exSaved =
     [exCard ''A'' None (Some Known), exCard ''B'' None (Some New), exCard ''C'' None (Some New)]
   \<and> stored (storage exSaved) = Some (cards exSaved)
   \<and> cards (handleShuffle [] (\<lambda>k. True) exSaved) = rev (cards exSaved)
   \<and> stored (storage (handleShuffle [] (\<lambda>k. True) exSaved)) = Some (cards exSaved)
   \<and> currentCard (handleShuffle [] (\<lambda>k. True) exSaved) = Some (exCard ''C'' None (Some New))
   \<and> accepts (storage exSaved)
        [exCard ''C'' None (Some Unknown), exCard ''B'' None (Some New),
         exCard ''A'' None (Some Known)]
   \<and> stored (storage (handleMark Unknown (handleShuffle [] (\<lambda>k. True) exSaved))) =
       Some [exCard ''C'' None (Some Unknown), exCard ''B'' None (Some New),
             exCard ''A'' None (Some Known)]"
proof -
  have facts: "cards exSaved =
     [exCard ''A'' None (Some Known), exCard ''B'' None (Some New), exCard ''C'' None (Some New)]"
    "stored (storage exSaved) = Some (cards exSaved)"
    "cards (handleShuffle [] (\<lambda>k. True) exSaved) = rev (cards exSaved)"
    "accepts (storage exSaved) = (\<lambda>cs. True)"
    by (simp_all add: exSaved_def exAtA_def handler_defs ex_defs sortRandom_reverse)
  have c: "currentCard (handleShuffle [] (\<lambda>k. True) exSaved) = Some (exCard ''C'' None (Some New))"
    by (simp add: exSaved_def exAtA_def handler_defs ex_defs sortRandom_reverse)
  have srt: "sortRandom [] (\<lambda>k. True) (cards exSaved) = rev (cards exSaved)"
    using facts(3) by (simp add: handleShuffle_def)
  have "storage (handleShuffle [] (\<lambda>k. True) exSaved) = storage exSaved"
    using shuffle_not_persisted [where merged = "[]" and rnd = "\<lambda>k. True" and s = exSaved] by blast
  moreover have "storage (handleMark Unknown (handleShuffle [] (\<lambda>k. True) exSaved)) =
      saveCards
        (map (\<lambda>x. if card_id x = card_id (exCard ''C'' None (Some New))
                   then x\<lparr>proficiency := Some Unknown\<rparr> else x)
           (sortRandom [] (\<lambda>k. True) (cards exSaved)))
        (storage exSaved)"
    using shuffle_not_persisted [where merged = "[]" and rnd = "\<lambda>k. True" and s = exSaved] c by blast
  ultimately show ?thesis
    using facts c srt by (simp add: saveCards_def exCard_def)
qed

end
